theory Spec2Isabelle
  imports Complex_Main "HOL-Library.Word" "HOL-Library.Multiset"
begin

section \<open>Conventions\<close>

text \<open>
  A shallow embedding of the deterministic core of DOCSim: \<^verbatim>\<open>rng.py\<close>,
  \<^verbatim>\<open>models.py\<close>, \<^verbatim>\<open>rating.py\<close>, \<^verbatim>\<open>breeding.py\<close>, \<^verbatim>\<open>cpu_pool.py\<close>,
  \<^verbatim>\<open>records.py\<close>, \<^verbatim>\<open>race_reporting.py\<close>, \<^verbatim>\<open>surfaces.py\<close> and
  \<^verbatim>\<open>race_engine.py\<close>.

  \<^item> Python \<^verbatim>\<open>int\<close> is \<open>int\<close>; Python \<^verbatim>\<open>float\<close> is \<open>real\<close>, so every
    floating-point operation is read as the exact operation on reals (rounding error,
    overflow, infinities and NaN are outside the model).
  \<^item> A Python exception is a value \<open>Inl e\<close> of the result type \<open>py_error + 'a\<close>.
  \<^item> Mutation of an argument (the pool's used-id sets, the record table) is explicit
    state passing: the function returns the updated object.
\<close>

datatype py_error = KeyError | ValueError | ZeroDivisionError | IndexError

text \<open>\<^verbatim>\<open>int(x)\<close> on a float truncates towards zero.\<close>

definition py_int :: "real \<Rightarrow> int" where
  "py_int x = (if 0 \<le> x then \<lfloor>x\<rfloor> else \<lceil>x\<rceil>)"

text \<open>\<^verbatim>\<open>round(x)\<close> with one argument returns the nearest integer, ties to even.\<close>

definition py_round :: "real \<Rightarrow> int" where
  "py_round x =
     (let f = \<lfloor>x\<rfloor>; d = x - of_int f
      in if d < 1/2 then f else if 1/2 < d then f + 1 else if even f then f else f + 1)"

section \<open>models.py\<close>

datatype Style = FR | SD | LS | SR | AL
datatype Sex = Sex_M | Sex_F
datatype Surface = TURF | DIRT
datatype Condition = GOOD | GOOD_TO_SOFT | SOFT | HEAVY

record Internals =
  stamina :: int
  speed :: int
  sharp :: int

record Externals =
  start :: int
  corner :: int
  oob :: int
  competing :: int
  tenacious :: int
  spurt :: int

text \<open>
  The fields of \<^verbatim>\<open>Horse\<close> that the core reads. The field \<^verbatim>\<open>id\<close> is \<open>id_h\<close> here
  (\<open>id\<close> is HOL's identity function) and \<^verbatim>\<open>name\<close> is \<open>name_h\<close>. The bookkeeping
  fields (tokens, career log, last training and feeding, extras) are never read by the
  functions below.
\<close>

record Horse =
  id_h :: string
  name_h :: string
  sex :: Sex
  style :: Style
  ac :: int
  internals :: Internals
  externals :: Externals
  rating_base :: "real option"

section \<open>rating.py\<close>

definition ext_sum :: "Horse \<Rightarrow> int" where
  "ext_sum h =
     (let e = externals h
      in start e + corner e + oob e + competing e + tenacious e + spurt e)"

definition int_sum :: "Horse \<Rightarrow> int" where
  "int_sum h = (let i = internals h in stamina i + speed i + sharp i)"

definition compute_pool_int_stats :: "Horse list \<Rightarrow> real \<times> real" where
  "compute_pool_int_stats horses =
     (let vals = map int_sum horses;
          mu = real_of_int (sum_list vals) / real (max 1 (length vals));
          var = sum_list (map (\<lambda>v. (real_of_int v - mu) ^ 2) vals) / real (max 1 (length vals));
          sd = (if var > 1 / 10 ^ 9 then sqrt var else 1)
      in (mu, sd))"

text \<open>
  \<^verbatim>\<open>compute_rating\<close> divides by the constant \<open>288 - 48\<close> and by \<^verbatim>\<open>pool_int_sd\<close>;
  a float division by zero raises \<^verbatim>\<open>ZeroDivisionError\<close>.
\<close>

definition compute_rating :: "Horse \<Rightarrow> real \<Rightarrow> real \<Rightarrow> py_error + real" where
  "compute_rating h pool_int_mean pool_int_sd =
     (let en = real_of_int (ext_sum h - 48) / real_of_int (288 - 48) * 100
      in if pool_int_sd = 0 then Inl ZeroDivisionError
         else
           let z = (real_of_int (int_sum h) - pool_int_mean) / pool_int_sd;
               inn = z * 15 + 50
           in Inr (55 / 100 * en + 45 / 100 * inn))"

section \<open>rng.py\<close>

text \<open>
  \<^verbatim>\<open>RNG\<close> wraps Python's \<^verbatim>\<open>random.Random\<close>, which is not part of the repository.
  \<^verbatim>\<open>random()\<close> of CPython returns \<open>k / 2^53\<close> for a 53-bit integer \<open>k\<close>, a float
  in \<open>[0, 1)\<close>. As far as \<^verbatim>\<open>random()\<close> is concerned, the state of a generator is the
  sequence of the 53-bit integers it is still to produce: a call returns the head and
  leaves the tail.
\<close>

type_synonym RNG = "nat \<Rightarrow> 53 word"

definition RNG_random :: "RNG \<Rightarrow> real \<times> RNG" where
  "RNG_random r = (real (unat (r 0)) / 2 ^ 53, \<lambda>i. r (Suc i))"

definition tri_centered :: "RNG \<Rightarrow> real \<times> RNG" where
  "tri_centered r =
     (let (u1, r1) = RNG_random r;
          (u2, r2) = RNG_random r1;
          (u3, r3) = RNG_random r2
      in ((u1 + u2 + u3) - 15 / 10, r3))"

section \<open>roster.py\<close>

text \<open>The breeding-scale parent record; its fields carry the suffix \<open>_p\<close>.\<close>

record ParentHorse =
  name_p :: string
  stamina_p :: int
  speed_p :: int
  sharp_p :: int
  ac_p :: int
  start_p :: int
  corner_p :: int
  oob_p :: int
  competing_p :: int
  tenacious_p :: int
  spurt_p :: int

section \<open>breeding.py\<close>

datatype ExternalKey = Start | Corner | Oob | Competing | Tenacious | Spurt

definition MIN_V :: int where "MIN_V = 8"
definition MAX_V :: int where "MAX_V = 48"

definition clamp_int :: "int \<Rightarrow> int \<Rightarrow> int \<Rightarrow> int" where
  "clamp_int x lo hi = (if x < lo then lo else if x > hi then hi else x)"

fun safe_get :: "ParentHorse \<Rightarrow> ExternalKey \<Rightarrow> int" where
  "safe_get p Start = start_p p"
| "safe_get p Corner = corner_p p"
| "safe_get p Oob = oob_p p"
| "safe_get p Competing = competing_p p"
| "safe_get p Tenacious = tenacious_p p"
| "safe_get p Spurt = spurt_p p"

definition floor_avg :: "int \<Rightarrow> int \<Rightarrow> int" where
  "floor_avg a b = (a + b) div 2"

definition breed_internals :: "ParentHorse \<Rightarrow> ParentHorse \<Rightarrow> Internals" where
  "breed_internals sire dam =
     \<lparr> stamina = floor_avg (stamina_p sire) (stamina_p dam),
       speed = floor_avg (speed_p sire) (speed_p dam),
       sharp = floor_avg (sharp_p sire) (sharp_p dam) \<rparr>"

definition keys :: "ExternalKey list" where
  "keys = [Start, Corner, Oob, Competing, Tenacious, Spurt]"

text \<open>
  The dict \<^verbatim>\<open>out\<close> is a function on the six keys. The first loop assigns every key
  before any entry is read, so the value the function starts with is never seen.
\<close>

type_synonym ext_dict = "ExternalKey \<Rightarrow> int"

definition sum_ext :: "ext_dict \<Rightarrow> int" where
  "sum_ext d = sum_list (map d keys)"

text \<open>The body of the first loop, for one key: the draw of the stat at birth.\<close>

definition birth_stat ::
  "ParentHorse \<Rightarrow> ParentHorse \<Rightarrow> int \<Rightarrow> real \<Rightarrow> ExternalKey \<Rightarrow> RNG \<Rightarrow> int \<times> RNG" where
  "birth_stat sire dam t_total n_shift k rng =
     (let gamma = 16 / 10; sd_base = 22 / 10; anom_p = 35 / 1000; anom_mag = 14;
          a0 = clamp_int (safe_get sire k) 0 16;
          b0 = clamp_int (safe_get dam k) 0 16;
          denom = (if a0 = 16 \<or> b0 = 16 then 16 else 15 :: int);
          n = (real_of_int (a0 + b0) / 2) / real_of_int denom;
          n = max 0 (min 1 (n + n_shift));
          expected = real_of_int MIN_V + real_of_int (MAX_V - MIN_V) * (n powr gamma);
          (tc, rng) = tri_centered rng;
          noise = tc * sd_base * 2;
          (u, rng) = RNG_random rng;
          (noise, rng) =
            (if u < anom_p then
               let p_pos = min (70 / 100) (50 / 100 + 5 / 100 * real_of_int t_total);
                   (u2, rng) = RNG_random rng;
                   sign = (if u2 < p_pos then 1 else - 1);
                   (u3, rng) = RNG_random rng
               in (noise + sign * (u3 * anom_mag), rng)
             else (noise, rng));
          v = py_int (expected + noise)
      in (clamp_int v MIN_V MAX_V, rng))"

fun birth_loop ::
  "ParentHorse \<Rightarrow> ParentHorse \<Rightarrow> int \<Rightarrow> real \<Rightarrow> ExternalKey list \<Rightarrow> ext_dict \<Rightarrow> RNG
   \<Rightarrow> ext_dict \<times> RNG" where
  "birth_loop sire dam t_total n_shift [] out rng = (out, rng)"
| "birth_loop sire dam t_total n_shift (k # ks) out rng =
     (let (v, rng') = birth_stat sire dam t_total n_shift k rng
      in birth_loop sire dam t_total n_shift ks (out(k := v)) rng')"

text \<open>One pass of the proportional reduction over \<^verbatim>\<open>reducibles\<close>.\<close>

definition cut_step :: "int \<Rightarrow> int \<Rightarrow> ExternalKey \<times> int \<Rightarrow> ext_dict \<Rightarrow> ext_dict" where
  "cut_step excess total_room kr out =
     (let (k, room) = kr;
          cut = py_round (real_of_int excess * (real_of_int room / real_of_int total_room))
      in if cut \<le> 0 then out else out(k := max MIN_V (out k - cut)))"

text \<open>\<^verbatim>\<open>for _ in range(20)\<close>: the counter is the number of passes left.\<close>

fun proportional :: "nat \<Rightarrow> int \<Rightarrow> ext_dict \<Rightarrow> ext_dict" where
  "proportional 0 cap_sum out = out"
| "proportional (Suc i) cap_sum out =
     (let s = sum_ext out
      in if s \<le> cap_sum then out
         else
           let excess = s - cap_sum;
               reducibles = map (\<lambda>k. (k, out k - MIN_V)) (filter (\<lambda>k. out k > MIN_V) keys);
               total_room = sum_list (map snd reducibles)
           in if total_room \<le> 0 then out
              else proportional i cap_sum (fold (cut_step excess total_room) reducibles out))"

declare proportional.simps [simp del]

text \<open>\<^verbatim>\<open>max(keys, key=...)\<close> returns the first key with the largest value.\<close>

fun max_key :: "('a \<Rightarrow> int) \<Rightarrow> 'a \<Rightarrow> 'a list \<Rightarrow> 'a" where
  "max_key f best [] = best"
| "max_key f best (x # xs) = max_key f (if f x > f best then x else best) xs"

definition kmax_of :: "ext_dict \<Rightarrow> ExternalKey" where
  "kmax_of out = max_key out (hd keys) (tl keys)"

function greedy :: "int \<Rightarrow> ext_dict \<Rightarrow> ext_dict" where
  "greedy cap_sum out =
     (if sum_ext out > cap_sum then
        let kmax = kmax_of out
        in if out kmax \<le> MIN_V then out
           else greedy cap_sum (out(kmax := out kmax - 1))
      else out)"
  by pat_completeness auto
termination
proof (relation "measure (\<lambda>(cap_sum, out). nat (sum_ext out - cap_sum))")
  show "wf (measure (\<lambda>(cap_sum, out). nat (sum_ext out - cap_sum)))" by simp
next
  fix cap_sum :: int and out :: ext_dict and kmax
  assume gt: "cap_sum < sum_ext out"
  have "sum_ext (out(kmax := out kmax - 1)) = sum_ext out - 1"
    by (cases kmax) (simp_all add: sum_ext_def keys_def)
  with gt show "((cap_sum, out(kmax := out kmax - 1)), (cap_sum, out))
        \<in> measure (\<lambda>(cap_sum, out). nat (sum_ext out - cap_sum))"
    by simp
qed

declare greedy.simps [simp del]

definition compute_birth_ext_8_48_from_parents ::
  "ParentHorse \<Rightarrow> ParentHorse \<Rightarrow> RNG \<Rightarrow> int \<Rightarrow> int \<Rightarrow> int \<Rightarrow> ext_dict \<times> RNG" where
  "compute_birth_ext_8_48_from_parents sire dam rng cap_sum genetic_tokens_sire genetic_tokens_dam =
     (let t_total = max 0 (genetic_tokens_sire + genetic_tokens_dam);
          n_shift = 3 / 100 * real_of_int (max 0 (min t_total 6));
          cap_sum = min 180 (cap_sum + min (4 * t_total) 20);
          (out, rng) = birth_loop sire dam t_total n_shift keys (\<lambda>_. 0) rng;
          out = proportional 20 cap_sum out;
          out = greedy cap_sum out
      in (out, rng))"

text \<open>The racing-career range of an external stat.\<close>

definition in_range :: "int \<Rightarrow> bool" where
  "in_range v = (MIN_V \<le> v \<and> v \<le> MAX_V)"

text \<open>Parents used in the examples: every external at 0, and the parents of the
  example scenario (internals 30, externals 8).\<close>

definition zero_parent :: ParentHorse where
  "zero_parent = \<lparr> name_p = ''Zero'', stamina_p = 30, speed_p = 30, sharp_p = 30, ac_p = 128,
     start_p = 0, corner_p = 0, oob_p = 0, competing_p = 0, tenacious_p = 0, spurt_p = 0 \<rparr>"

definition floor_parent :: ParentHorse where
  "floor_parent = \<lparr> name_p = ''Floor'', stamina_p = 30, speed_p = 30, sharp_p = 30, ac_p = 128,
     start_p = 8, corner_p = 8, oob_p = 8, competing_p = 8, tenacious_p = 8, spurt_p = 8 \<rparr>"

section \<open>rng.py: seed derivation\<close>

text \<open>
  \<^verbatim>\<open>hash64(*parts)\<close> feeds \<^verbatim>\<open>str(p)\<close> of each part, followed by the byte
  \<^verbatim>\<open>0x1f\<close>, to BLAKE2b with an 8-byte digest and reads the digest as an unsigned
  big-endian integer. The parts it is called with are integers and strings (a surface,
  a condition and a slot are the strings of their \<^verbatim>\<open>Literal\<close> types).
\<close>

datatype part = PInt int | PStr string

definition digit_char :: "nat \<Rightarrow> char" where
  "digit_char d = char_of (48 + d)"

fun str_nat :: "nat \<Rightarrow> string" where
  "str_nat n = (if n < 10 then [digit_char n] else str_nat (n div 10) @ [digit_char (n mod 10)])"

declare str_nat.simps [simp del]

definition str_int :: "int \<Rightarrow> string" where
  "str_int i = (if i < 0 then CHR ''-'' # str_nat (nat (- i)) else str_nat (nat i))"

fun py_str :: "part \<Rightarrow> string" where
  "py_str (PInt i) = str_int i"
| "py_str (PStr s) = s"

fun surface_str :: "Surface \<Rightarrow> string" where
  "surface_str TURF = ''TURF''"
| "surface_str DIRT = ''DIRT''"

fun condition_str :: "Condition \<Rightarrow> string" where
  "condition_str GOOD = ''GOOD''"
| "condition_str GOOD_TO_SOFT = ''GOOD_TO_SOFT''"
| "condition_str SOFT = ''SOFT''"
| "condition_str HEAVY = ''HEAVY''"

text \<open>
  What the core takes from outside the repository: the BLAKE2b digest
  (\<^verbatim>\<open>hashlib\<close>), and \<^verbatim>\<open>random.Random(seed)\<close>, seen through \<^verbatim>\<open>random()\<close> as the
  sequence of its draws and through \<^verbatim>\<open>shuffle\<close> as the list a freshly seeded
  generator shuffles a list of ids into.
\<close>

record env =
  blake2b_8 :: "string \<Rightarrow> 64 word"
  py_Random :: "int \<Rightarrow> RNG"
  py_shuffle :: "int \<Rightarrow> string list \<Rightarrow> string list"

definition hash64 :: "env \<Rightarrow> part list \<Rightarrow> int" where
  "hash64 E parts = uint (blake2b_8 E (concat (map (\<lambda>p. py_str p @ [char_of (31::nat)]) parts)))"

section \<open>schedule.py\<close>

datatype Slot = Slot_1R | Slot_2R | Slot_3R | Slot_4R | Slot_5R | Slot_G1

fun slot_str :: "Slot \<Rightarrow> string" where
  "slot_str Slot_1R = ''1R''"
| "slot_str Slot_2R = ''2R''"
| "slot_str Slot_3R = ''3R''"
| "slot_str Slot_4R = ''4R''"
| "slot_str Slot_5R = ''5R''"
| "slot_str Slot_G1 = ''G1''"

record RaceMeta =
  round_num :: int
  slot :: Slot
  track :: string
  distance :: int
  winner_purse :: int
  name :: "string option"
  course_code :: string
  surface :: Surface

section \<open>race engine: the gate draw\<close>

text \<open>
  The Fisher-Yates loop \<^verbatim>\<open>for i in range(len(gates) - 1, 0, -1)\<close>; the first argument
  is the current \<open>i\<close>. A draw is not negative, so neither is \<open>j\<close>; reading
  \<^verbatim>\<open>gates[j]\<close> past the end of the list raises \<^verbatim>\<open>IndexError\<close>.
\<close>

fun fisher_yates :: "nat \<Rightarrow> int list \<Rightarrow> RNG \<Rightarrow> py_error + (int list \<times> RNG)" where
  "fisher_yates 0 gates rng = Inr (gates, rng)"
| "fisher_yates (Suc i') gates rng =
     (let i = Suc i';
          (u, rng') = RNG_random rng;
          j = nat (py_int (u * real (i + 1)))
      in if j < length gates \<and> i < length gates
         then fisher_yates i' (gates[i := gates ! j, j := gates ! i]) rng'
         else Inl IndexError)"

definition race_base :: "env \<Rightarrow> int \<Rightarrow> int \<Rightarrow> RaceMeta \<Rightarrow> Condition \<Rightarrow> int" where
  "race_base E seed meet_iter race_meta condition =
     hash64 E [PInt seed, PInt meet_iter, PStr (course_code race_meta), PInt (distance race_meta),
               PStr (surface_str (surface race_meta)), PStr (condition_str condition)]"

text \<open>
  The dict comprehension \<^verbatim>\<open>{h.id: gates[i] for i, h in enumerate(runners)}\<close>: where an id
  occurs twice, the later entry stays.
\<close>

definition draw_gates ::
  "env \<Rightarrow> int \<Rightarrow> int \<Rightarrow> RaceMeta \<Rightarrow> Condition \<Rightarrow> Horse list \<Rightarrow> py_error + (string \<rightharpoonup> int)" where
  "draw_gates E seed meet_iter race_meta condition runners =
     (let base = race_base E seed meet_iter race_meta condition;
          gate_rng = py_Random E (hash64 E [PInt base, PStr ''GATE'']);
          gates = [1 .. int (length runners)]
      in case fisher_yates (length gates - 1) gates gate_rng of
           Inl e \<Rightarrow> Inl e
         | Inr (gates', _) \<Rightarrow> Inr (map_of (rev (zip (map id_h runners) gates'))))"

text \<open>An environment and runners for the examples.\<close>

definition env0 :: env where
  "env0 = \<lparr> blake2b_8 = (\<lambda>_. 0), py_Random = (\<lambda>_ _. 0), py_shuffle = (\<lambda>_ xs. xs) \<rparr>"

definition mk_horse :: "string \<Rightarrow> Horse" where
  "mk_horse i = \<lparr> id_h = i, name_h = i, sex = Sex_M, style = AL, ac = 128,
     internals = \<lparr> stamina = 30, speed = 30, sharp = 30 \<rparr>,
     externals = \<lparr> start = 20, corner = 20, oob = 20, competing = 20, tenacious = 20, spurt = 20 \<rparr>,
     rating_base = None \<rparr>"

definition race0 :: RaceMeta where
  "race0 = \<lparr> round_num = 1, slot = Slot_1R, track = ''Central City'', distance = 1200,
     winner_purse = 100000, name = None, course_code = ''CC'', surface = TURF \<rparr>"

section \<open>cpu pool: the round pool and field selection\<close>

fun BANDS :: "Slot \<Rightarrow> real \<times> real" where
  "BANDS Slot_1R = (20 / 100, 80 / 100)"
| "BANDS Slot_2R = (25 / 100, 85 / 100)"
| "BANDS Slot_3R = (50 / 100, 95 / 100)"
| "BANDS Slot_4R = (30 / 100, 85 / 100)"
| "BANDS Slot_5R = (40 / 100, 90 / 100)"
| "BANDS Slot_G1 = (65 / 100, 1)"

text \<open>
  The used-id sets of a pool are Python \<^verbatim>\<open>set\<close> objects, which \<^verbatim>\<open>select_cpu_field\<close>
  updates in place. They live in a store of set objects; \<^verbatim>\<open>used_by_slot\<close> maps a
  slot to the address of its set. \<^verbatim>\<open>build_round_pool\<close>, the only place where a
  \<^verbatim>\<open>RoundPool\<close> is made, creates one new set for each of the six slots
  (\<^verbatim>\<open>{slot: set() for slot in BANDS.keys()}\<close>). The fields \<^verbatim>\<open>round_num\<close> and
  \<^verbatim>\<open>seed\<close> carry the prefix \<open>pool_\<close> here.
\<close>

type_synonym addr = nat
type_synonym set_store = "addr \<Rightarrow> string set"

record RoundPool =
  pool_round_num :: int
  pool_seed :: int
  horses :: "Horse list"
  sorted_ids :: "string list"
  used_by_slot :: "Slot \<rightharpoonup> addr"

text \<open>\<^verbatim>\<open>xs[a:b]\<close> for bounds that are not negative.\<close>

definition py_slice :: "'a list \<Rightarrow> int \<Rightarrow> int \<Rightarrow> 'a list" where
  "py_slice xs a b = drop (nat a) (take (nat b) xs)"

text \<open>The candidates of a slot: the ids in the shifted percentile window, before the shuffle.\<close>

definition window :: "RoundPool \<Rightarrow> Slot \<Rightarrow> real \<Rightarrow> string list" where
  "window pool slt band_shift =
     (let (lo_p, hi_p) = BANDS slt;
          lo_p = max 0 (min 1 (lo_p + band_shift));
          hi_p = max 0 (min 1 (hi_p + band_shift));
          hi_p = (if hi_p < lo_p then lo_p else hi_p);
          ids = sorted_ids pool;
          n = length ids;
          lo = py_int (real n * lo_p);
          hi = max lo (py_int (real n * hi_p) - 1)
      in py_slice ids lo (hi + 1))"

text \<open>The first loop: ids not yet used for the slot, until the field is full.\<close>

fun pick_unused :: "string set \<Rightarrow> int \<Rightarrow> string list \<Rightarrow> string list \<Rightarrow> string list" where
  "pick_unused used field_size [] chosen = chosen"
| "pick_unused used field_size (hid # rest) chosen =
     (let chosen' = (if hid \<notin> used then chosen @ [hid] else chosen)
      in if int (length chosen') = field_size then chosen'
         else pick_unused used field_size rest chosen')"

text \<open>The second loop: any candidate not yet chosen, until the field is full.\<close>

fun pick_any :: "int \<Rightarrow> string list \<Rightarrow> string list \<Rightarrow> string list" where
  "pick_any field_size [] chosen = chosen"
| "pick_any field_size (hid # rest) chosen =
     (let chosen' = (if hid \<notin> set chosen then chosen @ [hid] else chosen)
      in if int (length chosen') = field_size then chosen'
         else pick_any field_size rest chosen')"

text \<open>
  The call returns the field; the pool object and the store of set objects are
  returned as the call leaves them. A slot with no entry in \<^verbatim>\<open>used_by_slot\<close> raises
  \<^verbatim>\<open>KeyError\<close> before anything is written.
\<close>

definition select_cpu_field ::
  "env \<Rightarrow> int \<Rightarrow> RoundPool \<Rightarrow> set_store \<Rightarrow> Slot \<Rightarrow> int \<Rightarrow> int \<Rightarrow> real
   \<Rightarrow> py_error + (Horse list \<times> RoundPool \<times> set_store)" where
  "select_cpu_field E global_seed pool store slt meet_iteration field_size band_shift =
     (let candidates = window pool slt band_shift;
          rng_seed = hash64 E [PInt global_seed, PStr ''FIELD'', PInt (pool_round_num pool),
                               PStr (slot_str slt), PInt meet_iteration];
          candidates = py_shuffle E rng_seed candidates
      in case used_by_slot pool slt of
           None \<Rightarrow> Inl KeyError
         | Some a \<Rightarrow>
             let used = store a;
                 chosen = pick_unused used field_size candidates [];
                 chosen = (if int (length chosen) < field_size
                           then pick_any field_size candidates chosen else chosen);
                 store' = store(a := used \<union> set chosen);
                 m = map_of (rev (map (\<lambda>h. (id_h h, h)) (horses pool)))
             in Inr (map (\<lambda>i. the (m i)) (filter (\<lambda>i. m i \<noteq> None) chosen), pool, store'))"

text \<open>
  A pool of 36 horses with ids \<open>H0, \<dots>, H35\<close> in rating order, and the used-id sets
  as \<^verbatim>\<open>build_round_pool\<close> leaves them: six empty sets, one for each slot.
\<close>

definition ids36 :: "string list" where
  "ids36 = map (\<lambda>i. CHR ''H'' # str_nat i) [0 ..< 36]"

definition slot_addr :: "Slot \<Rightarrow> addr" where
  "slot_addr s = (case s of Slot_1R \<Rightarrow> 0 | Slot_2R \<Rightarrow> 1 | Slot_3R \<Rightarrow> 2
                   | Slot_4R \<Rightarrow> 3 | Slot_5R \<Rightarrow> 4 | Slot_G1 \<Rightarrow> 5)"

definition pool36 :: RoundPool where
  "pool36 = \<lparr> pool_round_num = 1, pool_seed = 7, horses = map mk_horse ids36,
     sorted_ids = ids36, used_by_slot = (\<lambda>s. Some (slot_addr s)) \<rparr>"

definition store0 :: set_store where
  "store0 = (\<lambda>_. {})"

text \<open>The ids chosen by the two loops of \<^verbatim>\<open>select_cpu_field\<close> together.\<close>

definition chosen_ids :: "string set \<Rightarrow> int \<Rightarrow> string list \<Rightarrow> string list" where
  "chosen_ids used field_size candidates =
     (let chosen = pick_unused used field_size candidates []
      in if int (length chosen) < field_size then pick_any field_size candidates chosen else chosen)"

section \<open>records.py\<close>

definition EPS_BREAK :: real where
  "EPS_BREAK = 10 / 100"

record RecordEntry =
  time_seconds :: real
  holder :: string

type_synonym records = "string \<rightharpoonup> RecordEntry"

text \<open>\<^verbatim>\<open>_key\<close>: the f-string \<^verbatim>\<open>f"{course_code}|{distance}|{surface}"\<close>.\<close>

definition record_key :: "string \<Rightarrow> int \<Rightarrow> Surface \<Rightarrow> string" where
  "record_key cc dstn surf = cc @ ''|'' @ str_int dstn @ ''|'' @ surface_str surf"

text \<open>
  Both functions write into the dict they are given: they return their result
  together with the dict as they leave it.
\<close>

definition ensure_record ::
  "records \<Rightarrow> string \<Rightarrow> int \<Rightarrow> Surface \<Rightarrow> real \<Rightarrow> string \<Rightarrow> RecordEntry \<times> records" where
  "ensure_record recs cc dstn surf t hold =
     (let k = record_key cc dstn surf
      in case recs k of
           None \<Rightarrow> (let e = \<lparr> time_seconds = t, holder = hold \<rparr> in (e, recs(k \<mapsto> e)))
         | Some e \<Rightarrow> (e, recs))"

definition update_if_broken ::
  "records \<Rightarrow> string \<Rightarrow> int \<Rightarrow> Surface \<Rightarrow> real \<Rightarrow> string \<Rightarrow> (bool \<times> RecordEntry) \<times> records" where
  "update_if_broken recs cc dstn surf t hold =
     (let k = record_key cc dstn surf
      in case recs k of
           None \<Rightarrow> (let e = \<lparr> time_seconds = t, holder = hold \<rparr> in ((True, e), recs(k \<mapsto> e)))
         | Some old \<Rightarrow>
             if t < time_seconds old - EPS_BREAK
             then (let e = \<lparr> time_seconds = t, holder = hold \<rparr> in ((True, e), recs(k \<mapsto> e)))
             else ((False, old), recs))"

section \<open>surfaces.py\<close>

fun condition_speed_scalar :: "Surface \<Rightarrow> Condition \<Rightarrow> real" where
  "condition_speed_scalar TURF GOOD = 2 / 100"
| "condition_speed_scalar TURF GOOD_TO_SOFT = 0"
| "condition_speed_scalar TURF SOFT = - (1 / 100)"
| "condition_speed_scalar TURF HEAVY = - (3 / 100)"
| "condition_speed_scalar DIRT SOFT = 2 / 100"
| "condition_speed_scalar DIRT HEAVY = 1 / 100"
| "condition_speed_scalar DIRT GOOD_TO_SOFT = 0"
| "condition_speed_scalar DIRT GOOD = - (2 / 100)"

section \<open>race reporting: times and margins\<close>

text \<open>
  \<^verbatim>\<open>RaceRunnerResult\<close> (models.py); its field \<^verbatim>\<open>time_seconds\<close> is
  \<open>runner_time\<close> here, the name being taken by \<^verbatim>\<open>RecordEntry\<close>.
\<close>

record RaceRunnerResult =
  pos :: int
  horse_id :: string
  horse_name :: string
  runner_time :: real
  lengths_behind :: real

text \<open>The field \<^verbatim>\<open>runners\<close> of \<^verbatim>\<open>TimedRace\<close> is \<open>runners_t\<close> here.\<close>

record TimedRace =
  runners_t :: "RaceRunnerResult list"
  winner_time :: real
  record_broken :: bool
  record_entry :: RecordEntry

text \<open>\<^verbatim>\<open>list.index\<close>, for an element of the list.\<close>

fun index_of :: "'a \<Rightarrow> 'a list \<Rightarrow> nat" where
  "index_of x [] = 0"
| "index_of x (y # ys) = (if x = y then 0 else Suc (index_of x ys))"

definition condition_time_penalty :: "Surface \<Rightarrow> Condition \<Rightarrow> int \<Rightarrow> real" where
  "condition_time_penalty surf condition dstn =
     (let order = (if surf = TURF then [GOOD, GOOD_TO_SOFT, SOFT, HEAVY]
                   else [SOFT, HEAVY, GOOD_TO_SOFT, GOOD]);
          step = (if condition \<in> set order then index_of condition order else 0);
          per_step_1600 = 55 / 100
      in real step * per_step_1600 * (real_of_int dstn / 1600))"

definition par_time_seconds :: "int \<Rightarrow> Surface \<Rightarrow> real" where
  "par_time_seconds dstn surf =
     (let v = (if surf = TURF then 17 else 166 / 10) in real_of_int dstn / v)"

text \<open>\<^verbatim>\<open>min\<close> of a sequence; the empty sequence raises \<^verbatim>\<open>ValueError\<close>.\<close>

definition py_min :: "real list \<Rightarrow> py_error + real" where
  "py_min ts = (case ts of [] \<Rightarrow> Inl ValueError | t # rest \<Rightarrow> Inr (fold min rest t))"

text \<open>\<^verbatim>\<open>scores.get(key, default)\<close>.\<close>

definition dict_get :: "('k \<rightharpoonup> 'v) \<Rightarrow> 'k \<Rightarrow> 'v \<Rightarrow> 'v" where
  "dict_get d k dflt = (case d k of None \<Rightarrow> dflt | Some v \<Rightarrow> v)"

text \<open>The first half of \<^verbatim>\<open>timed_results\<close>: the raw time of every runner.\<close>

definition runners_raw ::
  "RaceMeta \<Rightarrow> Condition \<Rightarrow> Horse list \<Rightarrow> (string \<rightharpoonup> real) \<Rightarrow> RecordEntry \<Rightarrow> (Horse \<times> real) list" where
  "runners_raw race condition finish_order scores rec =
     (let cond_fastness = condition_speed_scalar (surface race) condition;
          base = time_seconds rec + 2;
          base = base + condition_time_penalty (surface race) condition (distance race);
          base = base * (1 - 25 / 100 * cond_fastness);
          sc = map (\<lambda>h. dict_get scores (id_h h) 0) finish_order;
          mu = sum_list sc / real (max 1 (length sc));
          var = sum_list (map (\<lambda>x. (x - mu) ^ 2) sc) / real (max 1 (length sc));
          sd = (if var > 1 / 10 ^ 9 then sqrt var else 1);
          k = 55 / 100
      in map (\<lambda>h. let z = (dict_get scores (id_h h) mu - mu) / sd; t = base - k * z
                   in (h, t)) finish_order)"

text \<open>
  Re-anchoring: every gap to the fastest raw time is cut to at most 10 seconds and added
  to the winner's time; then the stable sort by time.
\<close>

definition reanchor :: "real \<Rightarrow> real \<Rightarrow> (Horse \<times> real) list \<Rightarrow> (Horse \<times> real) list" where
  "reanchor wt min_t raw =
     (let updated = map (\<lambda>(h, t). let gap = t - min_t; gap = max 0 (min gap 10)
                                  in (h, wt + gap)) raw
      in sort_key snd updated)"

text \<open>The loop over \<^verbatim>\<open>enumerate(updated, start=1)\<close>.\<close>

definition placings :: "real \<Rightarrow> (Horse \<times> real) list \<Rightarrow> RaceRunnerResult list" where
  "placings wt updated =
     (let LEN_SEC = 20 / 100
      in map (\<lambda>(p, (h, t)).
                \<lparr> pos = int p, horse_id = id_h h, horse_name = name_h h,
                  runner_time = t, lengths_behind = (t - wt) / LEN_SEC \<rparr>)
             (enumerate 1 updated))"

text \<open>
  \<^verbatim>\<open>timed_results\<close> returns the timed race, or the error it raises, together with
  the record table as the call leaves it: \<^verbatim>\<open>ensure_record\<close> has written its entry
  before \<^verbatim>\<open>min\<close> can raise on an empty finish order.
\<close>

definition timed_results ::
  "RaceMeta \<Rightarrow> Condition \<Rightarrow> Horse list \<Rightarrow> (string \<rightharpoonup> real) \<Rightarrow> records
   \<Rightarrow> (py_error + TimedRace) \<times> records" where
  "timed_results race condition finish_order scores records_state =
     (let (rec, recs1) = ensure_record records_state (course_code race) (distance race)
                           (surface race) (par_time_seconds (distance race) (surface race)) ''N/A'';
          raw = runners_raw race condition finish_order scores rec
      in case py_min (map snd raw) of
           Inl e \<Rightarrow> (Inl e, recs1)
         | Inr min_t \<Rightarrow>
             let wt = max (time_seconds rec - 25 / 100) (min min_t (time_seconds rec + 8));
                 out = placings wt (reanchor wt min_t raw);
                 fastest_ok = (condition = (if surface race = TURF then GOOD else SOFT))
             in if fastest_ok then
                  (case out of
                     [] \<Rightarrow> (Inl IndexError, recs1)
                   | w # _ \<Rightarrow>
                       let ((broken, new_rec), recs2) =
                             update_if_broken recs1 (course_code race) (distance race)
                               (surface race) wt (horse_name w)
                       in (Inr \<lparr> runners_t = out, winner_time = wt, record_broken = broken,
                                 record_entry = new_rec \<rparr>, recs2))
                else (Inr \<lparr> runners_t = out, winner_time = wt, record_broken = False,
                           record_entry = rec \<rparr>, recs1))"

text \<open>The condition on which a record can be set: GOOD on turf, SOFT on dirt.\<close>

definition fastest_condition :: "Surface \<Rightarrow> Condition" where
  "fastest_condition surf = (if surf = TURF then GOOD else SOFT)"

text \<open>
  The record a race is run against: the stored entry of its key, or the synthetic
  par that \<^verbatim>\<open>ensure_record\<close> stores where there is none.
\<close>

definition current_record :: "records \<Rightarrow> RaceMeta \<Rightarrow> RecordEntry" where
  "current_record recs race =
     (case recs (record_key (course_code race) (distance race) (surface race)) of
        None \<Rightarrow> \<lparr> time_seconds = par_time_seconds (distance race) (surface race), holder = ''N/A'' \<rparr>
      | Some e \<Rightarrow> e)"

text \<open>A record table for the examples: a stored record of 500 seconds.\<close>

definition recs500 :: records where
  "recs500 = [record_key ''CC'' 1200 TURF \<mapsto> \<lparr> time_seconds = 500, holder = ''Old'' \<rparr>]"

section \<open>surfaces.py: surface fit\<close>

datatype ac_cat = Cat_TURF | Cat_MIXED | Cat_DIRT_LEAN | Cat_DIRT_MAX

definition ac_category :: "int \<Rightarrow> ac_cat" where
  "ac_category a =
     (if a \<le> 63 then Cat_TURF else if a \<le> 212 then Cat_MIXED
      else if a \<le> 254 then Cat_DIRT_LEAN else Cat_DIRT_MAX)"

definition surface_fit :: "int \<Rightarrow> Surface \<Rightarrow> real" where
  "surface_fit a race_surface =
     (case ac_category a of
        Cat_TURF \<Rightarrow> (if race_surface = TURF then 9 / 10 else - (6 / 10))
      | Cat_MIXED \<Rightarrow> 2 / 10
      | Cat_DIRT_LEAN \<Rightarrow> (if race_surface = DIRT then 6 / 10 else - (2 / 10))
      | Cat_DIRT_MAX \<Rightarrow> (if race_surface = DIRT then 1 else - (5 / 10)))"

section \<open>race engine: the simulation\<close>

definition distance_profile :: "int \<Rightarrow> real \<times> real \<times> real" where
  "distance_profile distance_m =
     (if distance_m \<le> 1400 then (75 / 100, 25 / 100, 0)
      else if distance_m \<le> 2000 then (30 / 100, 55 / 100, 15 / 100)
      else if distance_m \<le> 2600 then (15 / 100, 35 / 100, 50 / 100)
      else (5 / 100, 25 / 100, 70 / 100))"

definition clamp :: "real \<Rightarrow> real \<Rightarrow> real \<Rightarrow> real" where
  "clamp x lo hi = (if x < lo then lo else if x > hi then hi else x)"

definition ext_norm :: "int \<Rightarrow> real" where
  "ext_norm v = (let vv = clamp (real_of_int v) 8 48 in (vv - 8) * (15 / 10))"

fun condition_heaviness :: "Condition \<Rightarrow> real" where
  "condition_heaviness GOOD = 0"
| "condition_heaviness GOOD_TO_SOFT = 35 / 100"
| "condition_heaviness SOFT = 70 / 100"
| "condition_heaviness HEAVY = 1"

definition tri_noise :: "RNG \<Rightarrow> real \<times> RNG" where
  "tri_noise rng =
     (let (a, rng) = RNG_random rng;
          (b, rng) = RNG_random rng
      in (a + b - 1, rng))"

text \<open>
  \<^verbatim>\<open>_gauss\<close>: \<^verbatim>\<open>math.log\<close> raises \<^verbatim>\<open>ValueError\<close> unless its argument is positive,
  and \<^verbatim>\<open>math.sqrt\<close> raises it for a negative argument.
\<close>

definition gauss :: "RNG \<Rightarrow> real \<Rightarrow> real \<Rightarrow> py_error + (real \<times> RNG)" where
  "gauss rng mu sigma =
     (let (u, rng) = RNG_random rng;
          u1 = max (1 / 10 ^ 12) u;
          (u2, rng) = RNG_random rng
      in if u1 \<le> 0 then Inl ValueError
         else if - 2 * ln u1 < 0 then Inl ValueError
         else Inr (mu + sigma * (sqrt (- 2 * ln u1) * cos (2 * pi * u2)), rng))"

text \<open>The four style tables of \<^verbatim>\<open>_style_maps\<close>; every style has an entry.\<close>

fun STYLE_EARLY_BONUS :: "Style \<Rightarrow> real" where
  "STYLE_EARLY_BONUS FR = 3"
| "STYLE_EARLY_BONUS SD = 2"
| "STYLE_EARLY_BONUS AL = 5 / 10"
| "STYLE_EARLY_BONUS LS = - (5 / 10)"
| "STYLE_EARLY_BONUS SR = - 1"

fun STYLE_MID_BONUS :: "Style \<Rightarrow> real" where
  "STYLE_MID_BONUS FR = 2 / 10"
| "STYLE_MID_BONUS SD = 4 / 10"
| "STYLE_MID_BONUS AL = 6 / 10"
| "STYLE_MID_BONUS LS = 2 / 10"
| "STYLE_MID_BONUS SR = 0"

fun STYLE_LATE_BONUS :: "Style \<Rightarrow> real" where
  "STYLE_LATE_BONUS FR = - 1"
| "STYLE_LATE_BONUS SD = - (5 / 10)"
| "STYLE_LATE_BONUS AL = 5 / 10"
| "STYLE_LATE_BONUS LS = 3"
| "STYLE_LATE_BONUS SR = 2"

fun STYLE_ENDURANCE :: "Style \<Rightarrow> real" where
  "STYLE_ENDURANCE FR = 1"
| "STYLE_ENDURANCE SD = 90 / 100"
| "STYLE_ENDURANCE AL = 75 / 100"
| "STYLE_ENDURANCE LS = 55 / 100"
| "STYLE_ENDURANCE SR = 45 / 100"

fun gate_ideal_pos :: "Style \<Rightarrow> real" where
  "gate_ideal_pos FR = 22 / 100"
| "gate_ideal_pos SD = 22 / 100"
| "gate_ideal_pos AL = 50 / 100"
| "gate_ideal_pos LS = 65 / 100"
| "gate_ideal_pos SR = 75 / 100"

definition gate_penalty ::
  "int \<Rightarrow> int \<Rightarrow> Style \<Rightarrow> Surface \<Rightarrow> real \<Rightarrow> real \<Rightarrow> real \<Rightarrow> real \<Rightarrow> real" where
  "gate_penalty gate n_runners stl surf sprint mile stayer break_skill =
     (if n_runners \<le> 1 then 0
      else
        let gate_pos = real_of_int (gate - 1) / real_of_int (n_runners - 1);
            gate_pos = clamp gate_pos 0 1;
            severity = (19 / 10 * sprint + 12 / 10 * mile + 7 / 10 * stayer)
                         * (if surf = TURF then 115 / 100 else 1);
            ideal = gate_ideal_pos stl;
            style_pen = \<bar>gate_pos - ideal\<bar> * severity * (23 / 10);
            outside_sev = (14 / 10 * sprint + 9 / 10 * mile + 5 / 10 * stayer)
                            * (if surf = TURF then 105 / 100 else 1);
            outside_pen = gate_pos * outside_sev * (13 / 10);
            raw = style_pen + outside_pen;
            mitig = 1 - 50 / 100 * clamp break_skill 0 1
        in raw * mitig)"

definition turn_penalty ::
  "int \<Rightarrow> int \<Rightarrow> Surface \<Rightarrow> real \<Rightarrow> real \<Rightarrow> real \<Rightarrow> real \<Rightarrow> real" where
  "turn_penalty gate n_runners surf sprint mile stayer corner_skill =
     (if n_runners \<le> 1 then 0
      else
        let gate_pos = real_of_int (gate - 1) / real_of_int (n_runners - 1);
            gate_pos = clamp gate_pos 0 1;
            sev = (16 / 10 * sprint + 12 / 10 * mile + 9 / 10 * stayer)
                    * (if surf = TURF then 115 / 100 else 1);
            lack = 1 - clamp corner_skill 0 1
        in gate_pos * sev * lack * (18 / 10))"

definition surface_scalar :: "int \<Rightarrow> Surface \<Rightarrow> Condition \<Rightarrow> real" where
  "surface_scalar a surf cond =
     (let fit = surface_fit a surf;
          heavy = condition_heaviness cond
      in if fit \<ge> 0 then 1 + 10 / 100 * fit
         else 1 + 24 / 100 * fit * (1 + 90 / 100 * heavy))"

text \<open>
  \<^verbatim>\<open>sorted(xs, key=f, reverse=True)\<close>: the list is reversed, sorted by a stable sort,
  and reversed again, so that elements with equal keys keep their order.
\<close>

definition sorted_reverse :: "('a \<Rightarrow> real) \<Rightarrow> 'a list \<Rightarrow> 'a list" where
  "sorted_reverse f xs = rev (sort_key f (rev xs))"

definition pace_hotness :: "real list \<Rightarrow> real" where
  "pace_hotness early_potentials =
     (let n = length early_potentials
      in if n < 3 then 0
         else
           let mean = sum_list early_potentials / real n;
               var = sum_list (map (\<lambda>v. (v - mean) ^ 2) early_potentials) / real n;
               sd = (if var > 1 / 10 ^ 9 then sqrt var else 0)
           in if sd \<le> 1 / 10 ^ 9 then 0
              else
                let top3 = take 3 (sorted_reverse (\<lambda>v. v) early_potentials);
                    top_mean = sum_list top3 / 3;
                    z = (top_mean - mean) / sd
                in clamp (z - 25 / 100) 0 2)"

definition early_mid_late_base ::
  "Horse \<Rightarrow> real \<Rightarrow> real \<Rightarrow> real \<Rightarrow> int \<Rightarrow> int \<Rightarrow> Surface \<Rightarrow> RNG
   \<Rightarrow> (real \<times> real \<times> real) \<times> RNG" where
  "early_mid_late_base h sprint mile stayer gate n_runners surf hrng =
     (let st = real_of_int (stamina (internals h));
          sp = real_of_int (speed (internals h));
          sh = real_of_int (sharp (internals h));
          start' = ext_norm (start (externals h));
          corner' = ext_norm (corner (externals h));
          oob' = ext_norm (oob (externals h));
          comp = ext_norm (competing (externals h));
          ten = ext_norm (tenacious (externals h));
          spur = ext_norm (spurt (externals h));
          stl = style h;
          early_i = 60 / 100 * sp + 40 / 100 * sh;
          early_e = 65 / 100 * start' + 35 / 100 * oob';
          early = 45 / 100 * early_i + 55 / 100 * early_e;
          mid_i = 45 / 100 * sp + 25 / 100 * sh + 30 / 100 * st;
          mid_e = 55 / 100 * comp + 45 / 100 * corner';
          mid = 55 / 100 * mid_e + 45 / 100 * mid_i;
          late_i = 55 / 100 * st + 30 / 100 * sp + 15 / 100 * sh;
          late_e = 55 / 100 * spur + 45 / 100 * ten;
          late = 55 / 100 * late_e + 45 / 100 * late_i;
          early = early + STYLE_EARLY_BONUS stl;
          mid = mid + STYLE_MID_BONUS stl;
          late = late + STYLE_LATE_BONUS stl;
          break_skill = (60 / 100 * start' + 40 / 100 * oob') / 60;
          gp = gate_penalty gate n_runners stl surf sprint mile stayer break_skill;
          early = early - gp * (75 / 100 * sprint + 40 / 100 * mile + 20 / 100 * stayer);
          mid = mid - gp * (25 / 100 * sprint + 40 / 100 * mile + 35 / 100 * stayer);
          cp = turn_penalty gate n_runners surf sprint mile stayer (corner' / 60);
          mid = mid - cp;
          (tn, hrng) = tri_noise hrng;
          early = early + tn * (120 / 100 * sprint + 85 / 100 * mile + 60 / 100 * stayer)
      in ((early, mid, late), hrng))"

text \<open>
  The fields of \<^verbatim>\<open>RaceSimResult\<close> carry the suffix \<open>_r\<close>, their names being
  used for the arguments of other functions.
\<close>

record RaceSimResult =
  scores_r :: "string \<rightharpoonup> real"
  finish_order_r :: "Horse list"
  payouts_r :: "string \<rightharpoonup> int"
  gates_r :: "string \<rightharpoonup> int"
  payouts_by_pos_r :: "int \<rightharpoonup> int"

text \<open>\<^verbatim>\<open>d[k]\<close>: a missing key raises \<^verbatim>\<open>KeyError\<close>.\<close>

definition dict_index :: "('k \<rightharpoonup> 'v) \<Rightarrow> 'k \<Rightarrow> py_error + 'v" where
  "dict_index d k = (case d k of None \<Rightarrow> Inl KeyError | Some v \<Rightarrow> Inr v)"

text \<open>
  \<^verbatim>\<open>sorted(runners, key=lambda hh: d[hh.id]..., reverse=True)\<close>: the keys of all
  elements are computed before the sort, so a missing id raises \<^verbatim>\<open>KeyError\<close>.
\<close>

definition sorted_by_dict ::
  "(string \<rightharpoonup> 'v) \<Rightarrow> ('v \<Rightarrow> real) \<Rightarrow> Horse list \<Rightarrow> py_error + Horse list" where
  "sorted_by_dict d g xs =
     (if list_all (\<lambda>hh. d (id_h hh) \<noteq> None) xs
      then Inr (sorted_reverse (\<lambda>hh. g (the (d (id_h hh)))) xs)
      else Inl KeyError)"

text \<open>The generator of a horse in a race: \<^verbatim>\<open>RNG(hash64(base, h.id, "HORSE"))\<close>.\<close>

definition horse_rng :: "env \<Rightarrow> int \<Rightarrow> Horse \<Rightarrow> RNG" where
  "horse_rng E base h = py_Random E (hash64 E [PInt base, PStr (id_h h), PStr ''HORSE''])"

text \<open>The body of the first loop of \<^verbatim>\<open>run_race_sim\<close>: the phases of one horse.\<close>

definition phase_of ::
  "env \<Rightarrow> int \<Rightarrow> (string \<rightharpoonup> int) \<Rightarrow> real \<Rightarrow> real \<Rightarrow> real \<Rightarrow> int \<Rightarrow> Surface \<Rightarrow> Horse
   \<Rightarrow> real \<times> real \<times> real" where
  "phase_of E base gate_by_id sprint mile stayer n_runners surf h =
     (let hrng = horse_rng E base h;
          gate = dict_get gate_by_id (id_h h) 1
      in fst (early_mid_late_base h sprint mile stayer gate n_runners surf hrng))"

text \<open>The body of the second loop: the score of one horse.\<close>

definition score_of ::
  "env \<Rightarrow> int \<Rightarrow> (string \<rightharpoonup> int) \<Rightarrow> (string \<rightharpoonup> int) \<Rightarrow> (string \<rightharpoonup> real \<times> real \<times> real)
   \<Rightarrow> real \<Rightarrow> real \<Rightarrow> real \<Rightarrow> real \<Rightarrow> Surface \<Rightarrow> real \<Rightarrow> Condition \<Rightarrow> Horse
   \<Rightarrow> py_error + real" where
  "score_of E base gate_by_id early_rank phase_by_id pace_hot sprint mile stayer surf heavy
     condition h =
     (let hrng = horse_rng E base h;
          gate = dict_get gate_by_id (id_h h) 1;
          rank = dict_get early_rank (id_h h) 6;
          stl = style h;
          st = real_of_int (stamina (internals h));
          sp = real_of_int (speed (internals h));
          sh = real_of_int (sharp (internals h));
          start' = ext_norm (start (externals h));
          oob' = ext_norm (oob (externals h));
          comp = ext_norm (competing (externals h));
          ten = ext_norm (tenacious (externals h))
      in case dict_index phase_by_id (id_h h) of
           Inl e \<Rightarrow> Inl e
         | Inr (early, mid, late) \<Rightarrow>
        let is_closer = (stl = LS \<or> stl = SR \<or> rank \<ge> 8);
            traffic_prob = 12 / 100 + 6 / 100 * sprint + 8 / 100 * mile + 10 / 100 * stayer;
            traffic_prob = (if is_closer then traffic_prob + 10 / 100 else traffic_prob);
            traffic_prob = (if surf = DIRT \<and> heavy \<ge> 70 / 100
                            then traffic_prob + 5 / 100 else traffic_prob);
            traffic_prob = (if gate \<le> 4 then traffic_prob + 7 / 100
                            else if gate \<le> 8 then traffic_prob + 3 / 100 else traffic_prob);
            traffic_prob = traffic_prob - (oob' / 60) * (18 / 100);
            traffic_prob = traffic_prob - (comp / 60) * (8 / 100);
            traffic_prob = clamp traffic_prob 0 (55 / 100);
            (u, hrng) = RNG_random hrng;
            (mid, late, hrng) =
              (if u < traffic_prob then
                 let (u', hrng) = RNG_random hrng;
                     penalty = (15 / 10 + u' * (25 / 10)) * (1 - (oob' / 60) * (55 / 100));
                     late = late - penalty * (65 / 100 * sprint + 55 / 100 * mile + 45 / 100 * stayer);
                     mid = mid - penalty * (25 / 100)
                 in (mid, late, hrng)
               else if is_closer \<and> oob' \<ge> 45 then
                 let cut_chance = 12 / 100 + 8 / 100 * mile + 6 / 100 * stayer;
                     (u', hrng) = RNG_random hrng
                 in if u' < cut_chance then
                      let (u'', hrng) = RNG_random hrng
                      in (mid, late + (1 + u'' * (15 / 10)), hrng)
                    else (mid, late, hrng)
               else (mid, late, hrng));
            pos_fac = (if rank \<le> 2 then 1 else if rank \<le> 4 then 85 / 100
                       else if rank \<le> 6 then 65 / 100 else if rank \<le> 9 then 40 / 100
                       else 25 / 100 :: real);
            endurance = STYLE_ENDURANCE stl;
            dist_fac = 30 / 100 * sprint + 70 / 100 * mile + 1 * stayer;
            energy = 55 / 100 * st + 45 / 100 * ten;
            energy_def = max 0 (32 - energy) / 32;
            pace_fade = pace_hot * pos_fac * endurance * dist_fac * (15 / 10 + 25 / 10 * energy_def);
            sprinter_apt = 55 / 100 * sp + 45 / 100 * sh;
            mismatch = max 0 (sprinter_apt - st);
            dist_fade = (mismatch / 40) * endurance
                          * (20 / 100 * sprint + 80 / 100 * mile + 120 / 100 * stayer) * (28 / 10);
            handling = 45 / 100 * st + 55 / 100 * ten;
            going_adj = heavy * ((handling - 30) / 30) * 2;
            w_early = 45 / 100 * sprint + 30 / 100 * mile + 20 / 100 * stayer;
            w_mid = 30 / 100 * sprint + 35 / 100 * mile + 35 / 100 * stayer;
            w_late = 25 / 100 * sprint + 35 / 100 * mile + 45 / 100 * stayer;
            score = w_early * early + w_mid * mid + w_late * late;
            score = score + going_adj;
            score = score - (pace_fade + dist_fade);
            score = score * surface_scalar (ac h) surf condition;
            sigma = 95 / 100 * sprint + 75 / 100 * mile + 60 / 100 * stayer
        in case gauss hrng 0 sigma of
             Inl e \<Rightarrow> Inl e
           | Inr (g, hrng) \<Rightarrow>
               let score = score + g;
                   (tn, hrng) = tri_noise hrng;
                   score = score + tn * (25 / 100)
               in Inr score)"

text \<open>The second loop: it stops at the first horse whose score raises.\<close>

fun score_loop :: "(Horse \<Rightarrow> py_error + real) \<Rightarrow> Horse list \<Rightarrow> (string \<rightharpoonup> real)
   \<Rightarrow> py_error + (string \<rightharpoonup> real)" where
  "score_loop f [] scores = Inr scores"
| "score_loop f (h # hs) scores =
     (case f h of Inl e \<Rightarrow> Inl e | Inr s \<Rightarrow> score_loop f hs (scores(id_h h \<mapsto> s)))"

text \<open>
  \<^verbatim>\<open>run_race_sim\<close> from the point where the gates are known: the two loops over the
  runners, the two sorts and the payouts.
\<close>

definition race_body ::
  "env \<Rightarrow> int \<Rightarrow> RaceMeta \<Rightarrow> Condition \<Rightarrow> Horse list \<Rightarrow> (string \<rightharpoonup> int)
   \<Rightarrow> py_error + RaceSimResult" where
  "race_body E base race_meta condition rs gate_by_id =
     (let (sprint, mile, stayer) = distance_profile (distance race_meta);
          surf = surface race_meta;
          heavy = condition_heaviness condition;
          n_runners = int (length rs);
          phase = phase_of E base gate_by_id sprint mile stayer n_runners surf;
          phase_by_id = map_of (rev (map (\<lambda>h. (id_h h, phase h)) rs));
          early_pots = map (\<lambda>h. fst (phase h)) rs;
          pace_hot = pace_hotness early_pots
      in case sorted_by_dict phase_by_id fst rs of
           Inl e \<Rightarrow> Inl e
         | Inr early_order \<Rightarrow>
        let early_rank = map_of (rev (map (\<lambda>(i, h). (id_h h, int i + 1))
                                        (enumerate 0 early_order)))
        in case score_loop (score_of E base gate_by_id early_rank phase_by_id pace_hot
                              sprint mile stayer surf heavy condition) rs Map.empty of
             Inl e \<Rightarrow> Inl e
           | Inr scores \<Rightarrow>
               (case sorted_by_dict scores (\<lambda>s. s) rs of
                  Inl e \<Rightarrow> Inl e
                | Inr finish_order \<Rightarrow>
                    let finish_ids = map id_h finish_order;
                        purse = winner_purse race_meta;
                        payout_list = [purse, py_int (real_of_int purse * (3 / 10)),
                                       py_int (real_of_int purse * (2 / 10))];
                        payouts_by_pos = map_of (rev (zip [1, 2, 3] payout_list));
                        payouts = map_of (rev (zip finish_ids payout_list))
                    in Inr \<lparr> scores_r = scores, finish_order_r = finish_order,
                             payouts_r = payouts, gates_r = gate_by_id,
                             payouts_by_pos_r = payouts_by_pos \<rparr>))"

text \<open>
  \<^verbatim>\<open>run_race_sim\<close>; the keyword argument \<^verbatim>\<open>gate_by_id\<close> is \<open>None\<close> where the caller
  leaves it out, and the gates are drawn then.
\<close>

definition run_race_sim ::
  "env \<Rightarrow> int \<Rightarrow> int \<Rightarrow> RaceMeta \<Rightarrow> Condition \<Rightarrow> Horse \<Rightarrow> Horse list \<Rightarrow> (string \<rightharpoonup> int) option
   \<Rightarrow> py_error + RaceSimResult" where
  "run_race_sim E seed meet_iter race_meta condition player cpu11 gate_arg =
     (let rs = player # cpu11;
          base = race_base E seed meet_iter race_meta condition
      in case (case gate_arg of
                 None \<Rightarrow> draw_gates E seed meet_iter race_meta condition rs
               | Some g \<Rightarrow> Inr g) of
           Inl e \<Rightarrow> Inl e
         | Inr gate_by_id \<Rightarrow> race_body E base race_meta condition rs gate_by_id)"

text \<open>
  Two gate arguments say the same for a field: both are left out, or both are maps
  that give every runner the same gate (gate 1 where the map has no entry).
\<close>

definition same_gates ::
  "Horse list \<Rightarrow> (string \<rightharpoonup> int) option \<Rightarrow> (string \<rightharpoonup> int) option \<Rightarrow> bool" where
  "same_gates rs ga gb =
     (case (ga, gb) of
        (None, None) \<Rightarrow> True
      | (Some g, Some g') \<Rightarrow> list_all (\<lambda>h. dict_get g (id_h h) 1 = dict_get g' (id_h h) 1) rs
      | _ \<Rightarrow> False)"

text \<open>A generator that draws 0 throughout, for the examples.\<close>

definition zero_rng :: RNG where
  "zero_rng = (\<lambda>_. 0)"

text \<open>
  What a call of \<^verbatim>\<open>run_race_sim\<close> is compared by: the error it raises, or the scores
  and the finish order of its result.
\<close>

definition outcome :: "py_error + RaceSimResult \<Rightarrow> py_error + ((string \<rightharpoonup> real) \<times> Horse list)" where
  "outcome res = map_sum (\<lambda>e. e) (\<lambda>r. (scores_r r, finish_order_r r)) res"

text \<open>A gate map with no entry at all, for the examples.\<close>

definition no_gates :: "string \<rightharpoonup> int" where
  "no_gates = Map.empty"

section \<open>Strength rating: the standard deviation is positive\<close>

lemma compute_pool_int_stats_sd_pos: "0 < snd (compute_pool_int_stats pop)"
  by (simp add: compute_pool_int_stats_def Let_def)

text \<open>
  Claim C8. For every population of competitors (empty, of size one, or with all
  internal-stat sums equal included), \<^verbatim>\<open>compute_pool_int_stats\<close> returns a strictly
  positive standard deviation, so that \<^verbatim>\<open>compute_rating\<close> called with the returned
  mean and deviation does not divide by zero: it returns a rating, which is the
  weighted blend of the external percentage and the rescaled z-score.
\<close>

theorem compute_rating_defined:
  "0 < snd (compute_pool_int_stats pop) \<and>
   compute_rating h (fst (compute_pool_int_stats pop)) (snd (compute_pool_int_stats pop)) =
     Inr (55 / 100 * (real_of_int (ext_sum h - 48) / 240 * 100) +
          45 / 100 * ((real_of_int (int_sum h) - fst (compute_pool_int_stats pop)) /
                        snd (compute_pool_int_stats pop) * 15 + 50))"
proof -
  have pos: "0 < snd (compute_pool_int_stats pop)"
    by (rule compute_pool_int_stats_sd_pos)
  then have "snd (compute_pool_int_stats pop) \<noteq> 0" by simp
  then show ?thesis using pos by (simp add: compute_rating_def Let_def)
qed

section \<open>Breeding: the externals stay in range and under the cap\<close>

lemma clamp_int_in_range: "in_range (clamp_int v MIN_V MAX_V)"
  by (simp add: in_range_def clamp_int_def MIN_V_def MAX_V_def)

lemma birth_stat_in_range: "in_range (fst (birth_stat sire dam t_total n_shift k rng))"
  by (simp add: birth_stat_def Let_def split_beta clamp_int_in_range)

lemma birth_loop_in_range:
  "(\<forall>k. k \<in> set ks \<or> in_range (out k)) \<Longrightarrow>
   in_range (fst (birth_loop sire dam t_total n_shift ks out rng) k)"
proof (induction ks arbitrary: out rng)
  case Nil
  then show ?case by simp
next
  case (Cons a ks)
  show ?case
    apply (simp add: split_beta)
    apply (rule Cons.IH)
    using Cons.prems birth_stat_in_range by auto
qed

lemma set_keys: "set keys = UNIV"
proof -
  have "k \<in> set keys" for k by (cases k) (simp_all add: keys_def)
  then show ?thesis by blast
qed

lemma cut_step_in_range:
  assumes "\<forall>k. in_range (out k)"
  shows "in_range (cut_step excess total_room kr out k)"
proof -
  obtain k' room where kr: "kr = (k', room)" by (cases kr)
  have a: "in_range (out k)" and b: "in_range (out k')" using assms by blast+
  show ?thesis using a b
    by (simp add: kr cut_step_def Let_def in_range_def)
qed

lemma fold_cut_step_in_range:
  "(\<forall>k. in_range (out k)) \<Longrightarrow> in_range (fold (cut_step excess total_room) rs out k)"
proof (induction rs arbitrary: out k)
  case Nil
  then show ?case by simp
next
  case (Cons r rs)
  have "\<forall>k. in_range (cut_step excess total_room r out k)"
    using Cons.prems cut_step_in_range by blast
  then show ?case using Cons.IH by simp
qed

lemma proportional_in_range:
  "(\<forall>k. in_range (out k)) \<Longrightarrow> in_range (proportional i cap_sum out k)"
proof (induction i arbitrary: out k)
  case 0
  then show ?case by (simp add: proportional.simps)
next
  case (Suc i)
  show ?case
    using Suc.prems Suc.IH fold_cut_step_in_range
    by (simp add: proportional.simps Let_def)
qed

lemma max_key_ge:
  "f best \<le> f (max_key f best xs) \<and> (\<forall>x \<in> set xs. f x \<le> f (max_key f best xs))"
proof (induction xs arbitrary: best)
  case Nil
  then show ?case by simp
next
  case (Cons x xs)
  from Cons.IH [of "if f x > f best then x else best"]
  show ?case by (auto split: if_splits)
qed

lemma kmax_of_ge: "out k \<le> out (kmax_of out)"
proof -
  have "k = hd keys \<or> k \<in> set (tl keys)"
    by (cases k) (simp_all add: keys_def)
  then show ?thesis
    using max_key_ge [of out "hd keys" "tl keys"] by (auto simp: kmax_of_def)
qed

lemma greedy_in_range:
  "(\<forall>k. in_range (out k)) \<Longrightarrow> in_range (greedy cap_sum out k)"
proof (induction cap_sum out arbitrary: k rule: greedy.induct)
  case (1 cap_sum out)
  show ?case
  proof (cases "sum_ext out > cap_sum \<and> \<not> out (kmax_of out) \<le> MIN_V")
    case True
    have "in_range ((out(kmax_of out := out (kmax_of out) - 1)) k')" for k'
    proof (cases "k' = kmax_of out")
      case eq: True
      have "in_range (out (kmax_of out))" using "1.prems" by blast
      with True eq show ?thesis by (simp add: in_range_def)
    next
      case False
      then show ?thesis using "1.prems" by simp
    qed
    then have "\<forall>k. in_range ((out(kmax_of out := out (kmax_of out) - 1)) k)" by blast
    then have "in_range (greedy cap_sum (out(kmax_of out := out (kmax_of out) - 1)) k)"
      using True by (intro "1.IH" [of "kmax_of out"]) simp_all
    with True show ?thesis
      by (simp add: greedy.simps [of cap_sum out] Let_def)
  next
    case False
    with "1.prems" show ?thesis
      by (auto simp: greedy.simps [of cap_sum out] Let_def)
  qed
qed

lemma greedy_post:
  "sum_ext (greedy cap_sum out) \<le> cap_sum \<or> (\<forall>k. greedy cap_sum out k \<le> MIN_V)"
proof (induction cap_sum out rule: greedy.induct)
  case (1 cap_sum out)
  show ?case
  proof (cases "sum_ext out > cap_sum")
    case gt: True
    show ?thesis
    proof (cases "out (kmax_of out) \<le> MIN_V")
      case True
      then have "\<forall>k. out k \<le> MIN_V" using kmax_of_ge [of out] by (meson order_trans)
      with gt True show ?thesis by (simp add: greedy.simps [of cap_sum out] Let_def)
    next
      case False
      let ?o = "out(kmax_of out := out (kmax_of out) - 1)"
      have "sum_ext (greedy cap_sum ?o) \<le> cap_sum \<or> (\<forall>k. greedy cap_sum ?o k \<le> MIN_V)"
        using gt False by (intro "1.IH" [of "kmax_of out"]) simp_all
      with gt False show ?thesis
        by (simp add: greedy.simps [of cap_sum out] Let_def)
    qed
  next
    case False
    then show ?thesis by (simp add: greedy.simps [of cap_sum out])
  qed
qed

lemma compute_birth_in_range:
  "in_range (fst (compute_birth_ext_8_48_from_parents sire dam rng cap_sum ts td) k)"
  unfolding compute_birth_ext_8_48_from_parents_def Let_def split_beta fst_conv
  by (intro greedy_in_range proportional_in_range allI birth_loop_in_range) (simp add: set_keys)

lemma sum_ext_floor: "(\<forall>k. out k = MIN_V) \<Longrightarrow> sum_ext out = 6 * MIN_V"
  by (simp add: sum_ext_def keys_def)

lemma sum_ext_ge_floor: "(\<forall>k. in_range (out k)) \<Longrightarrow> 6 * MIN_V \<le> sum_ext out"
proof -
  assume r: "\<forall>k. in_range (out k)"
  have "MIN_V \<le> out Start" "MIN_V \<le> out Corner" "MIN_V \<le> out Oob"
    "MIN_V \<le> out Competing" "MIN_V \<le> out Tenacious" "MIN_V \<le> out Spurt"
    using r unfolding in_range_def by blast+
  then show ?thesis by (simp add: sum_ext_def keys_def)
qed

lemma greedy_capped:
  assumes "\<forall>k. in_range (out k)"
  shows "sum_ext (greedy cap_sum out) \<le> max (6 * MIN_V) cap_sum"
proof -
  have r: "\<forall>k. in_range (greedy cap_sum out k)"
    using assms greedy_in_range by blast
  from greedy_post [of cap_sum out]
  consider "sum_ext (greedy cap_sum out) \<le> cap_sum" | "\<forall>k. greedy cap_sum out k \<le> MIN_V"
    by auto
  then show ?thesis
  proof cases
    case 1
    then show ?thesis by (simp add: le_max_iff_disj)
  next
    case 2
    with r have "\<forall>k. greedy cap_sum out k = MIN_V"
      unfolding in_range_def by (meson order_antisym)
    then have "sum_ext (greedy cap_sum out) = 6 * MIN_V" by (rule sum_ext_floor)
    then show ?thesis by simp
  qed
qed

lemma birth_then_proportional_in_range:
  "in_range (proportional i cap (fst (birth_loop sire dam t n keys out0 rng)) k)"
  by (intro proportional_in_range allI birth_loop_in_range) (simp add: set_keys)

text \<open>
  Claim C4. For every breeding call (any two parent records, any generator state, any
  cap and any token counts), each of the six output external stats lies in the closed
  range from 8 to 48.
\<close>

theorem compute_birth_ext_bounds:
  "8 \<le> fst (compute_birth_ext_8_48_from_parents sire dam rng cap_sum ts td) k \<and>
   fst (compute_birth_ext_8_48_from_parents sire dam rng cap_sum ts td) k \<le> 48"
  using compute_birth_in_range [of sire dam rng cap_sum ts td k]
  by (simp add: in_range_def MIN_V_def MAX_V_def)

text \<open>
  Claim C3, as the code has it. The greedy phase stops when the largest stat is at the
  floor, so the sum of the six output externals is at most the token-adjusted cap
  \<open>min 180 (cap_sum + min (4 * t_total) 20)\<close> or 48 (six stats at the floor 8),
  whichever is larger; in particular it is at most the token-adjusted cap whenever
  that cap is at least 48. No stat of the output is below the floor 8.
\<close>

theorem compute_birth_ext_cap:
  "sum_ext (fst (compute_birth_ext_8_48_from_parents sire dam rng cap_sum ts td))
     \<le> max 48 (min 180 (cap_sum + min (4 * max 0 (ts + td)) 20)) \<and>
   (\<forall>k. 8 \<le> fst (compute_birth_ext_8_48_from_parents sire dam rng cap_sum ts td) k)"
proof -
  define cap where "cap = min 180 (cap_sum + min (4 * max 0 (ts + td)) 20)"
  define o1 where "o1 = proportional 20 cap
      (fst (birth_loop sire dam (max 0 (ts + td))
              (3 / 100 * real_of_int (max 0 (min (max 0 (ts + td)) 6))) keys (\<lambda>_. 0) rng))"
  define res where "res = fst (compute_birth_ext_8_48_from_parents sire dam rng cap_sum ts td)"
  have o: "res = greedy cap o1"
    unfolding res_def o1_def cap_def
      compute_birth_ext_8_48_from_parents_def Let_def split_beta fst_conv
    by (rule refl)
  have "\<forall>k. in_range (o1 k)"
    unfolding o1_def using birth_then_proportional_in_range by blast
  then have "sum_ext (greedy cap o1) \<le> max (6 * MIN_V) cap"
    by (rule greedy_capped)
  then have s: "sum_ext res \<le> max 48 cap"
    unfolding o by (simp add: MIN_V_def)
  have "in_range (res k)" for k
    unfolding res_def by (rule compute_birth_in_range)
  then have "\<forall>k. 8 \<le> res k"
    by (simp add: in_range_def MIN_V_def)
  with s show ?thesis unfolding res_def cap_def by blast
qed

text \<open>
  The example scenario: parents with internals 30 and externals 8, cap 160 and no
  tokens give a foal whose externals sum to at most 160, whatever the generator draws.
\<close>

theorem compute_birth_ext_cap_witness:
  "\<forall>rng. sum_ext (fst (compute_birth_ext_8_48_from_parents floor_parent floor_parent rng 160 0 0))
     \<le> 160"
proof
  fix rng
  show "sum_ext (fst (compute_birth_ext_8_48_from_parents floor_parent floor_parent rng 160 0 0))
     \<le> 160"
    using compute_birth_ext_cap [of floor_parent floor_parent rng 160 0 0] by simp
qed

text \<open>
  Claim C3 as stated fails for a cap below 48. With parents whose externals are all 0,
  a generator that draws 0 throughout, cap 40 and no tokens, the token-adjusted cap
  is 40, every stat is born at the floor 8, neither phase can reduce anything, and
  the externals sum to 48.
\<close>

theorem compute_birth_ext_cap_counterexample:
  "\<not> sum_ext (fst (compute_birth_ext_8_48_from_parents zero_parent zero_parent zero_rng 40 0 0))
       \<le> min 180 (40 + min (4 * max 0 (0 + 0)) 20)"
proof -
  have "\<forall>k. in_range (fst (compute_birth_ext_8_48_from_parents zero_parent zero_parent zero_rng 40 0 0) k)"
    using compute_birth_in_range by blast
  then have "6 * MIN_V \<le> sum_ext (fst (compute_birth_ext_8_48_from_parents zero_parent zero_parent zero_rng 40 0 0))"
    by (rule sum_ext_ge_floor)
  then show ?thesis by (simp add: MIN_V_def)
qed

section \<open>Gate draw: a permutation of the gates\<close>

lemma RNG_random_range: "0 \<le> fst (RNG_random r) \<and> fst (RNG_random r) < 1"
proof -
  have "unat (r 0) < 2 ^ 53" using unsigned_less [of "r 0"] by simp
  then have "real (unat (r 0)) < 2 ^ 53"
    by (metis of_nat_less_iff of_nat_numeral of_nat_power)
  moreover have "0 \<le> real (unat (r 0))" by (rule of_nat_0_le_iff)
  ultimately show ?thesis by (simp add: RNG_random_def del: of_nat_unat)
qed

lemma gate_index_le:
  assumes "0 \<le> u" "u < 1"
  shows "nat (py_int (u * real (i + 1))) \<le> i"
proof -
  have "u * real (i + 1) < real (i + 1)" using assms by simp
  then have "\<lfloor>u * real (i + 1)\<rfloor> < int (i + 1)" by (simp add: floor_less_iff)
  moreover have "0 \<le> u * real (i + 1)" using assms by simp
  ultimately show ?thesis by (simp add: py_int_def)
qed

lemma fisher_yates_perm:
  "i < length gates \<Longrightarrow>
   \<exists>gates' rng'. fisher_yates i gates rng = Inr (gates', rng') \<and> mset gates' = mset gates"
proof (induction i arbitrary: gates rng)
  case 0
  then show ?case by simp
next
  case (Suc i')
  obtain u rng' where d: "RNG_random rng = (u, rng')" by (cases "RNG_random rng")
  define j where "j = nat (py_int (u * real (Suc i' + 1)))"
  have "0 \<le> u \<and> u < 1" using RNG_random_range [of rng] d by simp
  then have jle: "j \<le> Suc i'" unfolding j_def by (intro gate_index_le) simp_all
  with Suc.prems have jlt: "j < length gates" by simp
  let ?g = "gates[Suc i' := gates ! j, j := gates ! Suc i']"
  have len: "i' < length ?g" using Suc.prems by simp
  from Suc.IH [OF len, of rng'] obtain g2 r2 where
    r: "fisher_yates i' ?g rng' = Inr (g2, r2)" and m: "mset g2 = mset ?g" by blast
  have "mset ?g = mset gates" using jlt Suc.prems by (simp add: mset_swap)
  with r m jlt Suc.prems d show ?case by (simp add: j_def)
qed

lemma map_of_rev_distinct:
  "distinct (map fst xs) \<Longrightarrow> map_of (rev xs) = map_of xs"
  by (simp add: map_of_inject_set distinct_rev rev_map [symmetric])

lemma gates_of_map:
  assumes "length ks = length vs" "distinct ks"
  shows "map (\<lambda>k. the (map_of (zip ks vs) k)) ks = vs"
proof (rule nth_equalityI)
  show "length (map (\<lambda>k. the (map_of (zip ks vs) k)) ks) = length vs" using assms by simp
next
  fix i assume "i < length (map (\<lambda>k. the (map_of (zip ks vs) k)) ks)"
  then have i: "i < length vs" using assms by simp
  then show "map (\<lambda>k. the (map_of (zip ks vs) k)) ks ! i = vs ! i"
    using assms map_of_zip_nth [of ks vs i] by simp
qed

text \<open>
  Claim C5. For every call to \<^verbatim>\<open>draw_gates\<close> with \<open>N\<close> competitors (runners with
  pairwise distinct ids), the call returns a mapping whose keys are the runners' ids,
  and the gates it assigns to the runners are, as a multiset, exactly \<open>1, \<dots>, N\<close>:
  no gate twice and no gap.
\<close>

theorem draw_gates_permutation:
  assumes "distinct (map id_h runners)"
  shows "\<exists>m. draw_gates E seed meet_iter race_meta condition runners = Inr m \<and>
             dom m = set (map id_h runners) \<and>
             mset (map (\<lambda>h. the (m (id_h h))) runners) = mset [1 .. int (length runners)]"
proof -
  define gates where "gates = [1 .. int (length runners)]"
  define rng where "rng = py_Random E (hash64 E [PInt (race_base E seed meet_iter race_meta condition), PStr ''GATE''])"
  have len: "length gates = length runners" by (simp add: gates_def)
  have "\<exists>gates' rng'. fisher_yates (length gates - 1) gates rng = Inr (gates', rng') \<and> mset gates' = mset gates"
  proof (cases "runners = []")
    case True
    then show ?thesis by (simp add: gates_def)
  next
    case False
    then have "length gates - 1 < length gates" using len by simp
    then show ?thesis by (rule fisher_yates_perm)
  qed
  then obtain gates' rng' where
    fy: "fisher_yates (length gates - 1) gates rng = Inr (gates', rng')" and
    ms: "mset gates' = mset gates" by blast
  have len': "length gates' = length runners" using ms len by (metis size_mset)
  define m where "m = map_of (rev (zip (map id_h runners) gates'))"
  have dz: "distinct (map fst (zip (map id_h runners) gates'))"
    using assms len' by (simp add: map_fst_zip)
  have m_eq: "m = map_of (zip (map id_h runners) gates')"
    unfolding m_def using dz by (rule map_of_rev_distinct)
  have res: "draw_gates E seed meet_iter race_meta condition runners = Inr m"
    using fy by (simp add: draw_gates_def Let_def gates_def [symmetric] rng_def [symmetric] m_def)
  have dm: "dom m = set (map id_h runners)"
    unfolding m_eq using len' by (simp add: dom_map_of_zip)
  have "map (\<lambda>k. the (m k)) (map id_h runners) = gates'"
    unfolding m_eq using len' assms by (intro gates_of_map) simp_all
  then have "map (\<lambda>h. the (m (id_h h))) runners = gates'" by (simp add: comp_def)
  then have "mset (map (\<lambda>h. the (m (id_h h))) runners) = mset [1 .. int (length runners)]"
    using ms by (simp add: gates_def)
  with res dm show ?thesis by blast
qed

text \<open>A field of three: the ids are distinct and the gates drawn are 1, 2 and 3.\<close>

theorem draw_gates_permutation_witness:
  "distinct (map id_h [mk_horse ''PLAYER-001'', mk_horse ''CPU-R01-00'', mk_horse ''CPU-R01-01'']) \<and>
   (\<exists>m. draw_gates env0 42 1 race0 GOOD
          [mk_horse ''PLAYER-001'', mk_horse ''CPU-R01-00'', mk_horse ''CPU-R01-01''] = Inr m \<and>
        dom m = {''PLAYER-001'', ''CPU-R01-00'', ''CPU-R01-01''} \<and>
        mset (map (\<lambda>h. the (m (id_h h)))
          [mk_horse ''PLAYER-001'', mk_horse ''CPU-R01-00'', mk_horse ''CPU-R01-01'']) = mset [1, 2, 3])"
proof -
  have d: "distinct (map id_h [mk_horse ''PLAYER-001'', mk_horse ''CPU-R01-00'', mk_horse ''CPU-R01-01''])"
    by (simp add: mk_horse_def)
  have u: "[1 .. 3] = [1, 2, 3::int]" by (simp add: upto.simps)
  show ?thesis
    using d draw_gates_permutation [OF d, of env0 42 1 race0 GOOD]
    by (simp add: mk_horse_def u)
qed

section \<open>Field selection: how many competitors, and what the call changes\<close>

lemma pick_unused_eq:
  "int (length chosen) < field_size \<Longrightarrow>
   pick_unused used field_size cs chosen =
     chosen @ take (nat field_size - length chosen) (filter (\<lambda>h. h \<notin> used) cs)"
proof (induction cs arbitrary: chosen)
  case Nil
  then show ?case by simp
next
  case (Cons hid rest)
  show ?case
  proof (cases "hid \<in> used")
    case True
    with Cons show ?thesis by simp
  next
    case False
    show ?thesis
    proof (cases "int (length (chosen @ [hid])) = field_size")
      case True
      then have "nat field_size - length chosen = Suc 0" by auto
      with True False show ?thesis by simp
    next
      case ne: False
      then have lt: "int (length (chosen @ [hid])) < field_size" using Cons.prems by simp
      then have "nat field_size - length chosen = Suc (nat field_size - length (chosen @ [hid]))"
        by auto
      with Cons.IH [OF lt] ne False show ?thesis by simp
    qed
  qed
qed

lemma pick_any_eq:
  "int (length chosen) < field_size \<Longrightarrow> distinct cs \<Longrightarrow>
   pick_any field_size cs chosen =
     chosen @ take (nat field_size - length chosen) (filter (\<lambda>h. h \<notin> set chosen) cs)"
proof (induction cs arbitrary: chosen)
  case Nil
  then show ?case by simp
next
  case (Cons hid rest)
  show ?case
  proof (cases "hid \<in> set chosen")
    case True
    with Cons show ?thesis by simp
  next
    case False
    have f: "filter (\<lambda>h. h \<notin> set (chosen @ [hid])) rest = filter (\<lambda>h. h \<notin> set chosen) rest"
      using Cons.prems(2) by (intro filter_cong) auto
    show ?thesis
    proof (cases "int (length (chosen @ [hid])) = field_size")
      case True
      then have "nat field_size - length chosen = Suc 0" by auto
      with True False show ?thesis by simp
    next
      case ne: False
      then have lt: "int (length (chosen @ [hid])) < field_size" using Cons.prems by simp
      then have "nat field_size - length chosen = Suc (nat field_size - length (chosen @ [hid]))"
        by auto
      moreover have "distinct rest" using Cons.prems(2) by simp
      ultimately show ?thesis using Cons.IH [OF lt] ne False f by simp
    qed
  qed
qed

lemma length_filter_not_in_sublist:
  assumes "distinct cs" "distinct ys" "set ys \<subseteq> set cs"
  shows "length (filter (\<lambda>h. h \<notin> set ys) cs) = length cs - length ys"
proof -
  have "set (filter (\<lambda>h. h \<notin> set ys) cs) = set cs - set ys" by auto
  moreover have "distinct (filter (\<lambda>h. h \<notin> set ys) cs)" using assms by simp
  ultimately have "length (filter (\<lambda>h. h \<notin> set ys) cs) = card (set cs - set ys)"
    by (metis distinct_card)
  also have "\<dots> = card (set cs) - card (set ys)"
    using assms by (simp add: card_Diff_subset)
  finally show ?thesis using assms by (simp add: distinct_card)
qed

lemma chosen_ids_length:
  assumes "1 \<le> field_size" "distinct cs"
  shows "int (length (chosen_ids used field_size cs)) = min field_size (int (length cs))"
    and "distinct (chosen_ids used field_size cs)"
    and "set (chosen_ids used field_size cs) \<subseteq> set cs"
proof -
  define c1 where "c1 = take (nat field_size) (filter (\<lambda>h. h \<notin> used) cs)"
  have p1: "pick_unused used field_size cs [] = c1"
    using assms pick_unused_eq [of "[]" field_size used cs] by (simp add: c1_def)
  have d1: "distinct c1" and s1: "set c1 \<subseteq> set cs"
    using assms by (auto simp: c1_def dest: in_set_takeD)
  have l1: "int (length c1) \<le> field_size" using assms by (simp add: c1_def)
  have l1': "length c1 \<le> length cs"
    unfolding c1_def by (metis length_filter_le le_trans length_take min.cobounded1)
  show "int (length (chosen_ids used field_size cs)) = min field_size (int (length cs))"
  proof (cases "int (length c1) < field_size")
    case True
    have "length (filter (\<lambda>h. h \<notin> set c1) cs) = length cs - length c1"
      using assms d1 s1 by (intro length_filter_not_in_sublist)
    then show ?thesis
      using True l1' assms pick_any_eq [OF True assms(2)]
      by (simp add: chosen_ids_def p1 Let_def min_def) linarith
  next
    case False
    with l1 have "int (length c1) = field_size" by simp
    with False l1' show ?thesis by (simp add: chosen_ids_def p1 Let_def)
  qed
  show "distinct (chosen_ids used field_size cs)"
  proof (cases "int (length c1) < field_size")
    case True
    then show ?thesis
      using d1 s1 assms pick_any_eq [OF True assms(2)]
      by (auto simp: chosen_ids_def p1 Let_def dest: in_set_takeD intro: distinct_take)
  next
    case False
    then show ?thesis using d1 by (simp add: chosen_ids_def p1 Let_def)
  qed
  show "set (chosen_ids used field_size cs) \<subseteq> set cs"
  proof (cases "int (length c1) < field_size")
    case True
    then show ?thesis
      using s1 assms pick_any_eq [OF True assms(2)]
      by (auto simp: chosen_ids_def p1 Let_def dest: in_set_takeD)
  next
    case False
    then show ?thesis using s1 by (simp add: chosen_ids_def p1 Let_def)
  qed
qed

lemma window_distinct: "distinct (sorted_ids pool) \<Longrightarrow> distinct (window pool slt band_shift)"
  by (simp add: window_def Let_def split_beta py_slice_def distinct_take)

lemma window_subset: "set (window pool slt band_shift) \<subseteq> set (sorted_ids pool)"
  by (auto simp: window_def Let_def split_beta py_slice_def dest: in_set_dropD in_set_takeD)

lemma select_cpu_field_eq:
  assumes "used_by_slot pool slt = Some a"
  shows "select_cpu_field E global_seed pool store slt meet_iteration field_size band_shift =
     (let chosen = chosen_ids (store a) field_size
            (py_shuffle E (hash64 E [PInt global_seed, PStr ''FIELD'', PInt (pool_round_num pool),
                                     PStr (slot_str slt), PInt meet_iteration])
               (window pool slt band_shift));
          m = map_of (rev (map (\<lambda>h. (id_h h, h)) (horses pool)))
      in Inr (map (\<lambda>i. the (m i)) (filter (\<lambda>i. m i \<noteq> None) chosen), pool,
              store(a := store a \<union> set chosen)))"
  using assms by (simp add: select_cpu_field_def chosen_ids_def Let_def)

lemma id_lookup_defined:
  "i \<in> id_h ` set hs \<Longrightarrow> map_of (rev (map (\<lambda>h. (id_h h, h)) hs)) i \<noteq> None"
proof -
  assume "i \<in> id_h ` set hs"
  then have "i \<in> fst ` set (rev (map (\<lambda>h. (id_h h, h)) hs))" by force
  then show ?thesis by (simp only: map_of_eq_None_iff not_not)
qed

lemma pool36_distinct: "distinct (sorted_ids pool36)"
  by code_simp

lemma pool36_window_G1: "length (window pool36 Slot_G1 0) = 13"
  by code_simp

lemma pool36_ids: "set (sorted_ids pool36) \<subseteq> id_h ` set (horses pool36)"
proof -
  have "id_h ` set (map mk_horse xs) = set xs" for xs
    by (induction xs) (simp_all add: mk_horse_def)
  then show ?thesis by (simp add: pool36_def)
qed

text \<open>
  How many competitors a call returns. Both loops of \<^verbatim>\<open>select_cpu_field\<close> run over
  the candidates of the shifted percentile window only. In a pool whose sorted ids are
  distinct ids of its horses, for a slot with a used-id set and a field size of at
  least 1, the call returns \<open>min field_size (length window)\<close> competitors: exactly
  \<^verbatim>\<open>field_size\<close> whenever the window holds that many candidates (ids already used are
  admitted again by the second loop), and only the whole window when it holds fewer.
  The shuffle only has to permute its list, so it plays no part in the count.
\<close>

lemma select_cpu_field_length:
  assumes perm: "\<forall>s xs. mset (py_shuffle E s xs) = mset xs"
    and dist: "distinct (sorted_ids pool)"
    and ids: "set (sorted_ids pool) \<subseteq> id_h ` set (horses pool)"
    and key: "used_by_slot pool slt = Some a"
    and fs: "1 \<le> field_size"
  shows "\<exists>field store'.
           select_cpu_field E global_seed pool store slt meet_iteration field_size band_shift
             = Inr (field, pool, store') \<and>
           int (length field) = min field_size (int (length (window pool slt band_shift)))"
proof -
  define w where "w = window pool slt band_shift"
  define cs where "cs = py_shuffle E (hash64 E [PInt global_seed, PStr ''FIELD'',
      PInt (pool_round_num pool), PStr (slot_str slt), PInt meet_iteration]) w"
  define chosen where "chosen = chosen_ids (store a) field_size cs"
  define m where "m = map_of (rev (map (\<lambda>h. (id_h h, h)) (horses pool)))"
  have ms: "mset cs = mset w" unfolding cs_def using perm by blast
  have dw: "distinct w" unfolding w_def using dist by (rule window_distinct)
  have dcs: "distinct cs" using ms dw by (metis mset_eq_imp_distinct_iff)
  have lcs: "length cs = length w" using ms by (metis size_mset)
  have scs: "set cs \<subseteq> id_h ` set (horses pool)"
    using ms window_subset [of pool slt band_shift] ids unfolding w_def by (metis mset_eq_setD subset_trans)
  have len: "int (length chosen) = min field_size (int (length cs))"
    unfolding chosen_def using fs dcs by (rule chosen_ids_length(1))
  have sub: "set chosen \<subseteq> set cs"
    unfolding chosen_def using fs dcs by (rule chosen_ids_length(3))
  have "\<forall>i \<in> set chosen. m i \<noteq> None"
    unfolding m_def using sub scs id_lookup_defined by blast
  then have keep: "filter (\<lambda>i. m i \<noteq> None) chosen = chosen" by (simp add: filter_id_conv)
  have "select_cpu_field E global_seed pool store slt meet_iteration field_size band_shift
     = Inr (map (\<lambda>i. the (m i)) (filter (\<lambda>i. m i \<noteq> None) chosen), pool,
            store(a := store a \<union> set chosen))"
    unfolding select_cpu_field_eq [OF key] chosen_def m_def cs_def w_def Let_def by (rule refl)
  then show ?thesis using len lcs keep by (simp add: w_def)
qed

text \<open>
  The pool of 36, slot G1, a field of 11 and no shift: the window holds 13 candidates
  and the field is full.
\<close>

lemma select_cpu_field_full_field:
  "(\<forall>s xs. mset (py_shuffle env0 s xs) = mset xs) \<and>
   distinct (sorted_ids pool36) \<and>
   set (sorted_ids pool36) \<subseteq> id_h ` set (horses pool36) \<and>
   used_by_slot pool36 Slot_G1 = Some 5 \<and> (1::int) \<le> 11 \<and>
   (\<exists>field store'. select_cpu_field env0 42 pool36 store0 Slot_G1 1 11 0
                      = Inr (field, pool36, store') \<and>
                    length field = 11)"
proof -
  have perm: "\<forall>s xs. mset (py_shuffle env0 s xs) = mset xs" by (simp add: env0_def)
  have key: "used_by_slot pool36 Slot_G1 = Some 5" by (simp add: pool36_def slot_addr_def)
  have fs: "(1::int) \<le> 11" by simp
  from select_cpu_field_length [OF perm pool36_distinct pool36_ids key fs, of 42 store0 1 0]
  obtain field store' where
    "select_cpu_field env0 42 pool36 store0 Slot_G1 1 11 0 = Inr (field, pool36, store')"
    "int (length field) = min 11 (int (length (window pool36 Slot_G1 0)))" by blast
  then have "select_cpu_field env0 42 pool36 store0 Slot_G1 1 11 0 = Inr (field, pool36, store')
             \<and> length field = 11"
    by (simp add: pool36_window_G1)
  with perm pool36_distinct pool36_ids key fs show ?thesis by blast
qed

text \<open>
  Claim C2. \<^verbatim>\<open>select_cpu_field\<close> is to return exactly \<^verbatim>\<open>field_size\<close> competitors
  for every pool, slot, iteration, field size and band shift, also when the shifted
  percentile window holds fewer candidates than \<^verbatim>\<open>field_size\<close>. The code does not:
  its second loop, which is there to fill the field, draws from the window again and
  cannot fill a field that is larger than the window. In the pool of 36 with no id
  used yet, slot G1 with \<^verbatim>\<open>field_size=12\<close> and \<^verbatim>\<open>band_shift=0.05\<close> has the window
  \<^verbatim>\<open>sorted_ids[25:36]\<close> and the call returns these eleven competitors, not twelve;
  with \<^verbatim>\<open>field_size=11\<close> and \<^verbatim>\<open>band_shift=0.10\<close> the window is
  \<^verbatim>\<open>sorted_ids[27:36]\<close> and the call returns nine competitors, not eleven.
\<close>

theorem select_cpu_field_short_field:
  "(case select_cpu_field env0 42 pool36 store0 Slot_G1 1 12 (5 / 100) of
      Inl e \<Rightarrow> False
    | Inr (field, pool', store') \<Rightarrow>
        length field = 11 \<and>
        map id_h field = [''H25'', ''H26'', ''H27'', ''H28'', ''H29'', ''H30'', ''H31'', ''H32'',
                         ''H33'', ''H34'', ''H35'']) \<and>
   (case select_cpu_field env0 42 pool36 store0 Slot_G1 1 11 (10 / 100) of
      Inl e \<Rightarrow> False
    | Inr (field, pool', store') \<Rightarrow>
        length field = 9 \<and>
        map id_h field = [''H27'', ''H28'', ''H29'', ''H30'', ''H31'', ''H32'', ''H33'',
                         ''H34'', ''H35''])"
  by code_simp

lemma pool36_own: "inj_on (used_by_slot pool36) (dom (used_by_slot pool36))"
proof (rule inj_onI)
  fix x y assume "used_by_slot pool36 x = used_by_slot pool36 y"
  then show "x = y"
    by (cases x; cases y) (simp_all add: pool36_def slot_addr_def)
qed

text \<open>
  Claim C9. A call to \<^verbatim>\<open>select_cpu_field\<close> that returns leaves the pool object as it
  was (round number, seed, horses with their stats and ratings, the rating-sorted id
  list, and which set belongs to which slot), and the only set object it writes is the
  used-id set of the slot selected for, which can only grow. In a pool whose slots
  have a set each, as \<^verbatim>\<open>build_round_pool\<close> makes them, the used-id set of every
  other slot is therefore unchanged. (A call that raises \<^verbatim>\<open>KeyError\<close> has written
  nothing.)
\<close>

theorem select_cpu_field_frame:
  assumes sel: "select_cpu_field E global_seed pool store slt meet_iteration field_size band_shift
                  = Inr (field, pool', store')"
    and own: "inj_on (used_by_slot pool) (dom (used_by_slot pool))"
  shows "pool' = pool \<and>
         (\<forall>s a. s \<noteq> slt \<and> used_by_slot pool s = Some a \<longrightarrow> store' a = store a) \<and>
         (\<exists>a. used_by_slot pool slt = Some a \<and> store a \<subseteq> store' a \<and>
              (\<forall>b. b \<noteq> a \<longrightarrow> store' b = store b))"
proof -
  from sel obtain a where key: "used_by_slot pool slt = Some a"
    by (cases "used_by_slot pool slt") (simp_all add: select_cpu_field_def Let_def)
  from sel have p: "pool' = pool" and st: "\<exists>c. store' = store(a := store a \<union> c)"
    unfolding select_cpu_field_eq [OF key] Let_def by auto
  from st have other: "\<forall>b. b \<noteq> a \<longrightarrow> store' b = store b" and grow: "store a \<subseteq> store' a"
    by auto
  have "store' a' = store a'" if "s \<noteq> slt" "used_by_slot pool s = Some a'" for s a'
  proof -
    have "a' \<noteq> a"
    proof
      assume "a' = a"
      with that key have "used_by_slot pool s = used_by_slot pool slt" by simp
      moreover have "s \<in> dom (used_by_slot pool)" "slt \<in> dom (used_by_slot pool)"
        using that key by auto
      ultimately have "s = slt" using own by (meson inj_onD)
      with that show False by simp
    qed
    with other show ?thesis by simp
  qed
  with p key grow other show ?thesis by blast
qed

text \<open>
  The pool of 36 with six empty sets: after a G1 selection the sets of the five other
  slots are still empty.
\<close>

theorem select_cpu_field_frame_witness:
  "\<exists>field store'. select_cpu_field env0 42 pool36 store0 Slot_G1 1 11 0 = Inr (field, pool36, store') \<and>
     inj_on (used_by_slot pool36) (dom (used_by_slot pool36)) \<and>
     store' (slot_addr Slot_1R) = {} \<and> store' (slot_addr Slot_2R) = {} \<and>
     store' (slot_addr Slot_3R) = {} \<and> store' (slot_addr Slot_4R) = {} \<and>
     store' (slot_addr Slot_5R) = {}"
proof -
  have key: "used_by_slot pool36 Slot_G1 = Some 5" by (simp add: pool36_def slot_addr_def)
  obtain field store' where
    sel: "select_cpu_field env0 42 pool36 store0 Slot_G1 1 11 0 = Inr (field, pool36, store')"
    unfolding select_cpu_field_eq [OF key] Let_def by blast
  from select_cpu_field_frame [OF sel pool36_own]
  have "\<forall>s a. s \<noteq> Slot_G1 \<and> used_by_slot pool36 s = Some a \<longrightarrow> store' a = store0 a" by blast
  then have "\<forall>s. s \<noteq> Slot_G1 \<longrightarrow> store' (slot_addr s) = {}"
    by (simp add: pool36_def store0_def)
  with sel pool36_own show ?thesis by auto
qed

section \<open>Track records: a record is only lowered\<close>

lemma ensure_record_current:
  "ensure_record recs (course_code race) (distance race) (surface race)
       (par_time_seconds (distance race) (surface race)) ''N/A''
     = (current_record recs race,
        recs(record_key (course_code race) (distance race) (surface race) \<mapsto> current_record recs race))"
proof (cases "recs (record_key (course_code race) (distance race) (surface race))")
  case None
  then show ?thesis by (simp add: ensure_record_def current_record_def Let_def)
next
  case (Some e)
  then have "recs = recs(record_key (course_code race) (distance race) (surface race) \<mapsto> e)"
    by (simp add: fun_upd_idem)
  with Some show ?thesis by (simp add: ensure_record_def current_record_def Let_def)
qed

lemma update_if_broken_stored:
  assumes "recs k = Some old" "k = record_key cc d surf"
    and "update_if_broken recs cc d surf t hold = ((broken, e), recs')"
  shows "(broken \<longrightarrow> t < time_seconds old - EPS_BREAK \<and> e = \<lparr> time_seconds = t, holder = hold \<rparr> \<and>
                     recs' = recs(k \<mapsto> e)) \<and>
         (\<not> broken \<longrightarrow> e = old \<and> recs' = recs)"
  using assms by (auto simp: update_if_broken_def Let_def split: if_splits)

lemma eval_broken:
  "timed_results race0 GOOD [mk_horse ''A''] [''A'' \<mapsto> 1] recs500 =
     (Inr \<lparr> runners_t = [\<lparr> pos = 1, horse_id = ''A'', horse_name = ''A'',
                             runner_time = 49975 / 100, lengths_behind = 0 \<rparr>],
             winner_time = 49975 / 100, record_broken = True,
             record_entry = \<lparr> time_seconds = 49975 / 100, holder = ''A'' \<rparr> \<rparr>,
      [record_key ''CC'' 1200 TURF \<mapsto> \<lparr> time_seconds = 49975 / 100, holder = ''A'' \<rparr>])"
  by (simp add: timed_results_def ensure_record_def update_if_broken_def recs500_def race0_def
      mk_horse_def runners_raw_def py_min_def reanchor_def placings_def dict_get_def
      condition_time_penalty_def par_time_seconds_def EPS_BREAK_def Let_def enumerate_simps)

text \<open>
  Claim C6. Whatever the record table and however the call ends, after
  \<^verbatim>\<open>timed_results\<close> the table holds an entry for the race's (course, distance,
  surface) key whose time is at most the time of the record the race was run against
  (the stored entry, or the synthetic par where none was stored); that entry differs
  from it only if the condition is the fastest one for the surface (GOOD on turf,
  SOFT on dirt) and the new time is below the old one by more than \<^verbatim>\<open>EPS_BREAK\<close>.
  No other key is touched.
\<close>

theorem timed_results_record_monotone:
  assumes run: "timed_results race condition finish_order scores recs = (res, recs')"
  shows "\<exists>new. recs' (record_key (course_code race) (distance race) (surface race)) = Some new \<and>
           time_seconds new \<le> time_seconds (current_record recs race) \<and>
           (new \<noteq> current_record recs race \<longrightarrow>
              condition = fastest_condition (surface race) \<and>
              (\<exists>tr. res = Inr tr \<and> time_seconds new = winner_time tr) \<and>
              time_seconds new < time_seconds (current_record recs race) - EPS_BREAK) \<and>
           (\<forall>k. k \<noteq> record_key (course_code race) (distance race) (surface race)
                 \<longrightarrow> recs' k = recs k)"
proof -
  define k where "k = record_key (course_code race) (distance race) (surface race)"
  define old where "old = current_record recs race"
  define recs1 where "recs1 = recs(k \<mapsto> old)"
  have ens: "ensure_record recs (course_code race) (distance race) (surface race)
       (par_time_seconds (distance race) (surface race)) ''N/A'' = (old, recs1)"
    unfolding old_def recs1_def k_def by (rule ensure_record_current)
  have k1: "recs1 k = Some old" by (simp add: recs1_def)
  have other1: "\<forall>j. j \<noteq> k \<longrightarrow> recs1 j = recs j" by (simp add: recs1_def)
  have "recs' = recs1 \<or>
        (\<exists>tr hold broken e. res = Inr tr \<and> condition = fastest_condition (surface race) \<and>
            update_if_broken recs1 (course_code race) (distance race) (surface race)
              (winner_time tr) hold = ((broken, e), recs'))"
    using run unfolding timed_results_def ens Let_def fastest_condition_def
    by (auto split: sum.splits list.splits if_splits prod.splits)
  then show ?thesis
  proof
    assume "recs' = recs1"
    with k1 other1 show ?thesis unfolding k_def [symmetric] old_def [symmetric] by simp
  next
    assume "\<exists>tr hold broken e. res = Inr tr \<and> condition = fastest_condition (surface race) \<and>
            update_if_broken recs1 (course_code race) (distance race) (surface race)
              (winner_time tr) hold = ((broken, e), recs')"
    then obtain tr hold broken e where
      res: "res = Inr tr" and
      fast: "condition = fastest_condition (surface race)" and
      upd: "update_if_broken recs1 (course_code race) (distance race) (surface race)
              (winner_time tr) hold = ((broken, e), recs')" by blast
    note u = update_if_broken_stored [OF k1 k_def upd]
    show ?thesis
    proof (cases broken)
      case True
      with u have lt: "winner_time tr < time_seconds old - EPS_BREAK"
        and r: "recs' = recs1(k \<mapsto> \<lparr> time_seconds = winner_time tr, holder = hold \<rparr>)" by auto
      have "0 < EPS_BREAK" by (simp add: EPS_BREAK_def)
      with lt have "winner_time tr \<le> time_seconds old" by simp
      with lt r fast res other1 show ?thesis
        unfolding k_def [symmetric] old_def [symmetric] by simp
    next
      case False
      with u have "recs' = recs1" by simp
      with k1 other1 show ?thesis unfolding k_def [symmetric] old_def [symmetric] by simp
    qed
  qed
qed

text \<open>
  A record of 500 seconds over 1200 m of turf, one runner, GOOD going: the winner's
  time is clamped to 499.75, more than 0.10 below the record, which is lowered to it.
\<close>

theorem timed_results_record_monotone_witness:
  "\<exists>res recs' new tr.
     timed_results race0 GOOD [mk_horse ''A''] [''A'' \<mapsto> 1] recs500 = (res, recs') \<and>
     current_record recs500 race0 = \<lparr> time_seconds = 500, holder = ''Old'' \<rparr> \<and>
     recs' (record_key ''CC'' 1200 TURF) = Some new \<and>
     res = Inr tr \<and> winner_time tr = 49975 / 100 \<and>
     time_seconds new = winner_time tr \<and> time_seconds new < 500 - EPS_BREAK \<and>
     GOOD = fastest_condition TURF"
proof -
  have cur: "current_record recs500 race0 = \<lparr> time_seconds = 500, holder = ''Old'' \<rparr>"
    by (simp add: current_record_def recs500_def race0_def)
  from timed_results_record_monotone [OF eval_broken]
  obtain new where
    n: "[record_key ''CC'' 1200 TURF \<mapsto> \<lparr> time_seconds = 49975 / 100, holder = ''A'' \<rparr>]
          (record_key (course_code race0) (distance race0) (surface race0)) = Some new" and
    m: "new \<noteq> current_record recs500 race0 \<longrightarrow>
          GOOD = fastest_condition (surface race0) \<and>
          time_seconds new < time_seconds (current_record recs500 race0) - EPS_BREAK"
    by blast
  from n have new: "new = \<lparr> time_seconds = 49975 / 100, holder = ''A'' \<rparr>"
    by (simp add: race0_def)
  with m cur have "GOOD = fastest_condition TURF \<and> time_seconds new < 500 - EPS_BREAK"
    by (simp add: race0_def)
  with eval_broken cur new show ?thesis by (simp add: race0_def)
qed

section \<open>Timed results: placings, winner and margins\<close>

lemma py_min_Min: "ts \<noteq> [] \<Longrightarrow> py_min ts = Inr (Min (set ts))"
proof (cases ts)
  case Nil
  then show "ts \<noteq> [] \<Longrightarrow> ?thesis" by simp
next
  case (Cons t rest)
  have "Min (set (t # rest)) = fold min rest t" by (rule Min.set_eq_fold)
  then show ?thesis unfolding Cons by (simp add: py_min_def)
qed

lemma runners_raw_length:
  "length (runners_raw race condition finish_order scores rec) = length finish_order"
  by (simp add: runners_raw_def Let_def)

lemma reanchor_length: "length (reanchor wt min_t raw) = length raw"
  by (simp add: reanchor_def Let_def)

lemma reanchor_sorted: "sorted (map snd (reanchor wt min_t raw))"
  by (simp add: reanchor_def Let_def)

lemma reanchor_set:
  "snd ` set (reanchor wt min_t raw) = (\<lambda>t. wt + max 0 (min (t - min_t) 10)) ` snd ` set raw"
  by (force simp: reanchor_def Let_def split_beta image_iff)

lemma reanchor_bounds:
  assumes "x \<in> set (reanchor wt min_t raw)"
  shows "wt \<le> snd x \<and> snd x \<le> wt + 10"
proof -
  from assms have "snd x \<in> snd ` set (reanchor wt min_t raw)" by simp
  then obtain t where "snd x = wt + max 0 (min (t - min_t) 10)"
    unfolding reanchor_set by blast
  then show ?thesis by simp
qed

lemma reanchor_hd:
  assumes "raw \<noteq> []" "min_t = Min (set (map snd raw))"
  shows "snd (hd (reanchor wt min_t raw)) = wt"
proof -
  let ?r = "reanchor wt min_t raw"
  have ne: "?r \<noteq> []" using assms(1) reanchor_length [of wt min_t raw] by (metis length_0_conv)
  have "min_t \<in> snd ` set raw"
    using assms Min_in [of "set (map snd raw)"] by simp
  then have "wt + max 0 (min (min_t - min_t) 10) \<in> snd ` set ?r"
    unfolding reanchor_set by blast
  then have "wt \<in> set (map snd ?r)" by simp
  moreover have "sorted (map snd ?r)" by (rule reanchor_sorted)
  ultimately have "hd (map snd ?r) \<le> wt"
    using ne by (cases "map snd ?r") auto
  moreover have "wt \<le> snd (hd ?r)" using ne reanchor_bounds [of "hd ?r" wt min_t raw] by simp
  ultimately show ?thesis using ne by (simp add: hd_map)
qed

lemma map_snd_of_enumerate: "map (\<lambda>x. f (snd x)) (enumerate n xs) = map f xs"
proof -
  have "map (\<lambda>x. f (snd x)) (enumerate n xs) = map f (map snd (enumerate n xs))"
    by (simp add: comp_def del: map_snd_enumerate)
  then show ?thesis by simp
qed

lemma map_fst_of_enumerate:
  "map (\<lambda>x. g (fst x)) (enumerate n xs) = map g [n ..< n + length xs]"
proof -
  have "map (\<lambda>x. g (fst x)) (enumerate n xs) = map g (map fst (enumerate n xs))"
    by (simp add: comp_def del: map_fst_enumerate)
  then show ?thesis by simp
qed

lemma map_int_upt_upto: "map int [1 ..< 1 + n] = [1 .. int n]"
proof (induction n)
  case 0
  then show ?case by simp
next
  case (Suc n)
  have "[1 .. int (Suc n)] = [1 .. int n] @ [int (Suc n)]"
    using upto_rec2 [of 1 "int (Suc n)"] by simp
  with Suc show ?case by simp
qed

lemma placings_times: "map runner_time (placings wt upd) = map snd upd"
  by (simp add: placings_def Let_def comp_def case_prod_unfold map_snd_of_enumerate)

lemma placings_pos: "map pos (placings wt upd) = [1 .. int (length upd)]"
proof -
  have "map pos (placings wt upd) = map int [1 ..< 1 + length upd]"
    by (simp add: placings_def Let_def comp_def case_prod_unfold map_fst_of_enumerate
          del: upt_Suc)
  then show ?thesis by (simp only: map_int_upt_upto)
qed

lemma placings_lengths:
  "r \<in> set (placings wt upd) \<Longrightarrow> lengths_behind r = (runner_time r - wt) * 5"
  by (auto simp: placings_def Let_def split_beta)

lemma placings_set_times:
  "r \<in> set (placings wt upd) \<Longrightarrow> runner_time r \<in> snd ` set upd"
proof -
  assume "r \<in> set (placings wt upd)"
  then have "runner_time r \<in> set (map runner_time (placings wt upd))" by simp
  then show ?thesis unfolding placings_times by simp
qed

lemma timed_results_nonempty:
  assumes ne: "finish_order \<noteq> []"
  shows "\<exists>tr recs' min_t raw.
           timed_results race condition finish_order scores recs = (Inr tr, recs') \<and>
           raw \<noteq> [] \<and> length raw = length finish_order \<and> min_t = Min (set (map snd raw)) \<and>
           runners_t tr = placings (winner_time tr) (reanchor (winner_time tr) min_t raw)"
proof -
  define rec where "rec = current_record recs race"
  define raw where "raw = runners_raw race condition finish_order scores rec"
  define min_t where "min_t = Min (set (map snd raw))"
  define wt where "wt = max (time_seconds rec - 25 / 100) (min min_t (time_seconds rec + 8))"
  define out where "out = placings wt (reanchor wt min_t raw)"
  have len: "length raw = length finish_order" unfolding raw_def by (rule runners_raw_length)
  with ne have rawne: "raw \<noteq> []" by auto
  then have pm: "py_min (map snd raw) = Inr min_t" unfolding min_t_def by (intro py_min_Min) simp
  have "length out = length raw"
    by (simp add: out_def placings_def Let_def reanchor_length)
  with rawne obtain w ws where o: "out = w # ws" by (cases out) auto
  have "\<exists>tr recs'. timed_results race condition finish_order scores recs = (Inr tr, recs') \<and>
          winner_time tr = wt \<and> runners_t tr = out"
    unfolding timed_results_def ensure_record_current rec_def [symmetric]
    by (simp only: split_conv Let_def raw_def [symmetric] pm sum.case wt_def [symmetric]
          out_def [symmetric])
       (simp add: o split: prod.splits)
  then show ?thesis using rawne len min_t_def out_def by blast
qed

text \<open>
  Claim C10. For a non-empty finish order \<^verbatim>\<open>timed_results\<close> returns a timed race
  with one runner for each horse, sorted by time in nondecreasing order, with the
  positions \<open>1, \<dots>, n\<close> in this order; the runner in position 1 has the time
  \<^verbatim>\<open>winner_time\<close> and is 0 lengths behind; every runner's time is between
  \<^verbatim>\<open>winner_time\<close> and \<^verbatim>\<open>winner_time\<close> + 10 seconds, and its lengths behind are
  between 0 and 50.
\<close>

theorem timed_results_placings:
  assumes ne: "finish_order \<noteq> []"
  shows "\<exists>tr recs'.
           timed_results race condition finish_order scores recs = (Inr tr, recs') \<and>
           length (runners_t tr) = length finish_order \<and>
           sorted (map runner_time (runners_t tr)) \<and>
           map pos (runners_t tr) = [1 .. int (length finish_order)] \<and>
           runner_time (hd (runners_t tr)) = winner_time tr \<and>
           lengths_behind (hd (runners_t tr)) = 0 \<and>
           (\<forall>r \<in> set (runners_t tr).
              winner_time tr \<le> runner_time r \<and> runner_time r \<le> winner_time tr + 10 \<and>
              0 \<le> lengths_behind r \<and> lengths_behind r \<le> 50)"
proof -
  from timed_results_nonempty [OF ne, of race condition scores recs]
  obtain tr recs' min_t raw where
    run: "timed_results race condition finish_order scores recs = (Inr tr, recs')" and
    rawne: "raw \<noteq> []" and len: "length raw = length finish_order" and
    mt: "min_t = Min (set (map snd raw))" and
    out: "runners_t tr = placings (winner_time tr) (reanchor (winner_time tr) min_t raw)"
    by blast
  let ?wt = "winner_time tr"
  let ?upd = "reanchor ?wt min_t raw"
  have l: "length (runners_t tr) = length finish_order"
    unfolding out by (simp add: placings_def Let_def reanchor_length len)
  then have one: "runners_t tr \<noteq> []" using ne by auto
  have s: "sorted (map runner_time (runners_t tr))"
    unfolding out placings_times by (rule reanchor_sorted)
  have p: "map pos (runners_t tr) = [1 .. int (length finish_order)]"
    unfolding out placings_pos by (simp add: reanchor_length len)
  have b: "?wt \<le> runner_time r \<and> runner_time r \<le> ?wt + 10 \<and>
           0 \<le> lengths_behind r \<and> lengths_behind r \<le> 50" if "r \<in> set (runners_t tr)" for r
  proof -
    from that have "runner_time r \<in> snd ` set ?upd" unfolding out by (rule placings_set_times)
    then obtain x where "x \<in> set ?upd" "runner_time r = snd x" by blast
    then have "?wt \<le> runner_time r \<and> runner_time r \<le> ?wt + 10"
      using reanchor_bounds [of x ?wt min_t raw] by simp
    moreover have "lengths_behind r = (runner_time r - ?wt) * 5"
      using that unfolding out by (rule placings_lengths)
    ultimately show ?thesis by simp
  qed
  have "hd (map runner_time (runners_t tr)) = snd (hd ?upd)"
    unfolding out placings_times using rawne reanchor_length [of ?wt min_t raw]
    by (intro hd_map) (metis length_0_conv)
  then have h: "runner_time (hd (runners_t tr)) = ?wt"
    using one reanchor_hd [OF rawne mt, of ?wt] by (simp add: hd_map)
  have "hd (runners_t tr) \<in> set (placings ?wt ?upd)"
    using one out by (metis hd_in_set)
  then have "lengths_behind (hd (runners_t tr)) = (runner_time (hd (runners_t tr)) - ?wt) * 5"
    by (rule placings_lengths)
  with h have z: "lengths_behind (hd (runners_t tr)) = 0" by simp
  from run l s p h z b show ?thesis by blast
qed

text \<open>A race of two.\<close>

theorem timed_results_placings_witness:
  "[mk_horse ''A'', mk_horse ''B''] \<noteq> [] \<and>
   (\<exists>tr recs'.
      timed_results race0 GOOD [mk_horse ''A'', mk_horse ''B''] [''A'' \<mapsto> 2, ''B'' \<mapsto> 1] Map.empty
        = (Inr tr, recs') \<and>
      length (runners_t tr) = 2 \<and>
      sorted (map runner_time (runners_t tr)) \<and>
      map pos (runners_t tr) = [1, 2] \<and>
      runner_time (hd (runners_t tr)) = winner_time tr \<and>
      lengths_behind (hd (runners_t tr)) = 0)"
proof -
  have ne: "[mk_horse ''A'', mk_horse ''B''] \<noteq> []" by simp
  have u: "[1 .. 2] = [1, 2::int]" by (simp add: upto.simps)
  from timed_results_placings [OF ne, of race0 GOOD "[''A'' \<mapsto> 2, ''B'' \<mapsto> 1]" Map.empty]
  obtain tr recs' where
    "timed_results race0 GOOD [mk_horse ''A'', mk_horse ''B''] [''A'' \<mapsto> 2, ''B'' \<mapsto> 1] Map.empty
        = (Inr tr, recs')"
    "length (runners_t tr) = length [mk_horse ''A'', mk_horse ''B'']"
    "sorted (map runner_time (runners_t tr))"
    "map pos (runners_t tr) = [1 .. int (length [mk_horse ''A'', mk_horse ''B''])]"
    "runner_time (hd (runners_t tr)) = winner_time tr"
    "lengths_behind (hd (runners_t tr)) = 0"
    by blast
  then show ?thesis by (auto simp: u)
qed

section \<open>Race simulation: a result for every input, determined by the inputs\<close>

lemma gauss_returns: "\<exists>g rng'. gauss rng mu sigma = Inr (g, rng')"
proof -
  obtain u r1 where d1: "RNG_random rng = (u, r1)" by (cases "RNG_random rng")
  obtain u2 r2 where d2: "RNG_random r1 = (u2, r2)" by (cases "RNG_random r1")
  have "u < 1" using RNG_random_range [of rng] d1 by simp
  then have lt: "max (1 / 10 ^ 12) u < 1" by simp
  have pos: "0 < max (1 / 10 ^ 12) u" by (simp add: max_def)
  from pos lt have "ln (max (1 / 10 ^ 12) u) < 0" by (simp only: ln_less_zero_iff)
  then have nn: "\<not> - 2 * ln (max (1 / 10 ^ 12) u) < 0" by simp
  have np: "\<not> max (1 / 10 ^ 12) u \<le> 0" using pos by simp
  show ?thesis
    unfolding gauss_def d1 d2 Let_def split_conv
    by (simp only: np nn if_False) blast
qed

lemma gauss_not_error [simp]: "gauss rng mu sigma \<noteq> Inl e"
  using gauss_returns [of rng mu sigma] by auto

lemma score_of_returns:
  assumes "phase_by_id (id_h h) \<noteq> None"
  shows "\<exists>s. score_of E base gate_by_id early_rank phase_by_id pace_hot sprint mile stayer surf
               heavy condition h = Inr s"
proof -
  from assms obtain early mid late where p: "phase_by_id (id_h h) = Some (early, mid, late)"
    by (cases "phase_by_id (id_h h)") auto
  show ?thesis
    unfolding score_of_def Let_def dict_index_def p option.case sum.case split_conv
    by (simp only: split_beta split: sum.split) simp
qed

lemma score_loop_returns:
  assumes "\<forall>h \<in> set hs. \<exists>s. f h = Inr s"
  shows "\<exists>sc. score_loop f hs scores = Inr sc \<and> dom sc = dom scores \<union> id_h ` set hs"
  using assms
proof (induction hs arbitrary: scores)
  case Nil
  then show ?case by simp
next
  case (Cons h hs)
  then obtain s where s: "f h = Inr s" by auto
  from Cons.prems have "\<forall>h \<in> set hs. \<exists>s. f h = Inr s" by simp
  then have "\<exists>sc. score_loop f hs (scores(id_h h \<mapsto> s)) = Inr sc \<and>
                dom sc = dom (scores(id_h h \<mapsto> s)) \<union> id_h ` set hs"
    by (rule Cons.IH)
  then obtain sc where "score_loop f hs (scores(id_h h \<mapsto> s)) = Inr sc"
    "dom sc = dom (scores(id_h h \<mapsto> s)) \<union> id_h ` set hs" by blast
  with s show ?case by auto
qed

lemma score_loop_cong:
  "(\<forall>h \<in> set hs. f h = f' h) \<Longrightarrow> score_loop f hs scores = score_loop f' hs scores"
  by (induction hs arbitrary: scores) (auto split: sum.splits)

lemma sorted_reverse_mset: "mset (sorted_reverse f xs) = mset xs"
  by (simp add: sorted_reverse_def)

lemma sorted_by_dict_returns:
  assumes "\<forall>h \<in> set xs. d (id_h h) \<noteq> None"
  shows "sorted_by_dict d g xs = Inr (sorted_reverse (\<lambda>hh. g (the (d (id_h hh)))) xs)"
  using assms by (simp add: sorted_by_dict_def list_all_iff)

lemma map_of_rev_defined: "k \<in> fst ` set xs \<Longrightarrow> map_of (rev xs) k \<noteq> None"
proof -
  assume "k \<in> fst ` set xs"
  then have "k \<in> fst ` set (rev xs)" by simp
  then show ?thesis by (simp only: map_of_eq_None_iff not_not)
qed

lemma race_body_returns:
  "\<exists>r. race_body E base race_meta condition rs gate_by_id = Inr r \<and>
       dom (scores_r r) = id_h ` set rs \<and>
       mset (finish_order_r r) = mset rs \<and>
       gates_r r = gate_by_id"
proof -
  obtain sprint mile stayer where dp: "distance_profile (distance race_meta) = (sprint, mile, stayer)"
    by (cases "distance_profile (distance race_meta)")
  define phase where "phase = phase_of E base gate_by_id sprint mile stayer (int (length rs))
                                (surface race_meta)"
  define phase_by_id where "phase_by_id = map_of (rev (map (\<lambda>h. (id_h h, phase h)) rs))"
  have pd: "\<forall>h \<in> set rs. phase_by_id (id_h h) \<noteq> None"
    unfolding phase_by_id_def by (intro ballI map_of_rev_defined) force
  define early_order where "early_order = sorted_reverse (\<lambda>hh. fst (the (phase_by_id (id_h hh)))) rs"
  have eo: "sorted_by_dict phase_by_id fst rs = Inr early_order"
    unfolding early_order_def using pd by (rule sorted_by_dict_returns)
  define early_rank where "early_rank = map_of (rev (map (\<lambda>(i, h). (id_h h, int i + 1))
                                        (enumerate 0 early_order)))"
  define f where "f = score_of E base gate_by_id early_rank phase_by_id
     (pace_hotness (map (\<lambda>h. fst (phase h)) rs)) sprint mile stayer (surface race_meta)
     (condition_heaviness condition) condition"
  have "\<forall>h \<in> set rs. \<exists>s. f h = Inr s"
    unfolding f_def using pd score_of_returns by blast
  from score_loop_returns [OF this, of Map.empty] obtain scores where
    sl: "score_loop f rs Map.empty = Inr scores" and ds: "dom scores = id_h ` set rs" by auto
  from ds have "\<forall>h \<in> set rs. scores (id_h h) \<noteq> None" by blast
  then have fo: "sorted_by_dict scores (\<lambda>s. s) rs
                   = Inr (sorted_reverse (\<lambda>hh. the (scores (id_h hh))) rs)"
    by (rule sorted_by_dict_returns)
  show ?thesis
    unfolding race_body_def dp split_conv Let_def phase_def [symmetric]
      phase_by_id_def [symmetric] eo sum.case early_rank_def [symmetric] f_def [symmetric] sl fo
    by (simp add: ds sorted_reverse_mset)
qed

lemma draw_gates_returns: "\<exists>m. draw_gates E seed meet_iter race_meta condition rs = Inr m"
proof -
  define gates where "gates = [1 .. int (length rs)]"
  define rng where "rng = py_Random E (hash64 E [PInt (race_base E seed meet_iter race_meta condition), PStr ''GATE''])"
  have "\<exists>gates' rng'. fisher_yates (length gates - 1) gates rng = Inr (gates', rng')"
  proof (cases "gates = []")
    case True
    then show ?thesis by simp
  next
    case False
    then have "length gates - 1 < length gates" by simp
    from fisher_yates_perm [OF this] show ?thesis by blast
  qed
  then show ?thesis
    by (auto simp: draw_gates_def Let_def gates_def [symmetric] rng_def [symmetric])
qed

lemma run_race_sim_returns:
  "\<exists>r. run_race_sim E seed meet_iter race_meta condition player cpu11 gate_arg = Inr r \<and>
       dom (scores_r r) = id_h ` set (player # cpu11) \<and>
       mset (finish_order_r r) = mset (player # cpu11)"
proof -
  obtain g where g: "(case gate_arg of
                 None \<Rightarrow> draw_gates E seed meet_iter race_meta condition (player # cpu11)
               | Some g \<Rightarrow> Inr g) = Inr g"
    using draw_gates_returns [of E seed meet_iter race_meta condition "player # cpu11"]
    by (cases gate_arg) auto
  from race_body_returns [of E "race_base E seed meet_iter race_meta condition" race_meta
      condition "player # cpu11" g]
  show ?thesis unfolding run_race_sim_def Let_def g sum.case by blast
qed

lemma phase_of_gate_cong:
  "dict_get g' (id_h h) 1 = dict_get g (id_h h) 1 \<Longrightarrow>
   phase_of E base g' sprint mile stayer n surf h = phase_of E base g sprint mile stayer n surf h"
  by (simp add: phase_of_def)

lemma score_of_gate_cong:
  "dict_get g' (id_h h) 1 = dict_get g (id_h h) 1 \<Longrightarrow>
   score_of E base g' er pbi hot sprint mile stayer surf heavy cond h
     = score_of E base g er pbi hot sprint mile stayer surf heavy cond h"
proof -
  assume e: "dict_get g' (id_h h) 1 = dict_get g (id_h h) 1"
  show ?thesis unfolding score_of_def e by (rule refl)
qed

lemma outcome_bind:
  "outcome (case x of Inl e \<Rightarrow> Inl e | Inr v \<Rightarrow> F v)
     = (case x of Inl e \<Rightarrow> Inl e | Inr v \<Rightarrow> outcome (F v))"
  by (cases x) (simp_all add: outcome_def)

lemma outcome_Inr: "outcome (Inr r) = Inr (scores_r r, finish_order_r r)"
  by (simp add: outcome_def)

lemma race_body_cong:
  assumes d: "distance m' = distance m" and s: "surface m' = surface m"
    and g: "\<forall>h \<in> set rs. dict_get g' (id_h h) 1 = dict_get g (id_h h) 1"
  shows "outcome (race_body E base m' cond rs g') = outcome (race_body E base m cond rs g)"
proof -
  obtain sprint mile stayer where dp: "distance_profile (distance m) = (sprint, mile, stayer)"
    by (cases "distance_profile (distance m)")
  define n where "n = int (length rs)"
  have pg: "phase_of E base g' sprint mile stayer n (surface m) h
            = phase_of E base g sprint mile stayer n (surface m) h" if "h \<in> set rs" for h
    using that g by (intro phase_of_gate_cong) blast
  have ph: "map (\<lambda>h. (id_h h, phase_of E base g' sprint mile stayer n (surface m) h)) rs
          = map (\<lambda>h. (id_h h, phase_of E base g sprint mile stayer n (surface m) h)) rs"
    by (intro map_cong refl) (simp only: pg)
  have ep: "map (\<lambda>h. fst (phase_of E base g' sprint mile stayer n (surface m) h)) rs
          = map (\<lambda>h. fst (phase_of E base g sprint mile stayer n (surface m) h)) rs"
    by (intro map_cong refl) (simp only: pg)
  have sl: "score_loop (score_of E base g' er pbi hot sprint mile stayer (surface m) hv cond) rs Map.empty
          = score_loop (score_of E base g er pbi hot sprint mile stayer (surface m) hv cond) rs Map.empty"
    for er pbi hot hv
  proof (rule score_loop_cong, rule ballI)
    fix h assume "h \<in> set rs"
    with g have "dict_get g' (id_h h) 1 = dict_get g (id_h h) 1" by blast
    then show "score_of E base g' er pbi hot sprint mile stayer (surface m) hv cond h
             = score_of E base g er pbi hot sprint mile stayer (surface m) hv cond h"
      by (rule score_of_gate_cong)
  qed
  show ?thesis
    unfolding race_body_def d s dp split_conv Let_def n_def [symmetric] ph ep sl
      outcome_bind outcome_Inr RaceSimResult.simps
    by (rule refl)
qed


lemma race_base_cong:
  assumes "course_code m' = course_code m" "distance m' = distance m" "surface m' = surface m"
  shows "race_base E seed meet_iter m' cond = race_base E seed meet_iter m cond"
  using assms by (simp add: race_base_def)

lemma draw_gates_cong:
  assumes "course_code m' = course_code m" "distance m' = distance m" "surface m' = surface m"
  shows "draw_gates E seed meet_iter m' cond rs = draw_gates E seed meet_iter m cond rs"
  unfolding draw_gates_def race_base_cong [OF assms] by (rule refl)

text \<open>
  Claim C1. The scores and the finish order that \<^verbatim>\<open>run_race_sim\<close> returns are
  determined by the seed, the meet iteration, the course code, distance and surface
  of the race, the condition, the field and the gates of the runners: two invocations
  that agree on these (in particular two invocations with identical inputs) return
  the same score for every competitor and the same finish order. Every generator
  the simulation draws from is made anew from a hash of these inputs, and nothing
  else is read. The BLAKE2b digest and the seeding of \<^verbatim>\<open>random.Random\<close> are the
  same functions in both invocations (the environment \<open>E\<close>), and a floating-point
  operation, read here as the operation on reals, is a function of its operands.
\<close>

theorem run_race_sim_deterministic:
  assumes cc: "course_code m' = course_code m" and d: "distance m' = distance m"
    and s: "surface m' = surface m"
    and g: "same_gates (player # cpu11) ga' ga"
  shows "outcome (run_race_sim E seed meet_iter m' cond player cpu11 ga')
       = outcome (run_race_sim E seed meet_iter m cond player cpu11 ga)"
proof -
  note b = race_base_cong [OF cc d s]
  show ?thesis
  proof (cases ga)
    case None
    with g have n': "ga' = None" by (cases ga') (simp_all add: same_gates_def)
    obtain gm where dg: "draw_gates E seed meet_iter m cond (player # cpu11) = Inr gm"
      using draw_gates_returns by blast
    then have dg': "draw_gates E seed meet_iter m' cond (player # cpu11) = Inr gm"
      by (simp only: draw_gates_cong [OF cc d s])
    show ?thesis
      unfolding run_race_sim_def Let_def None n' option.case dg dg' sum.case b
      by (rule race_body_cong [OF d s]) simp
  next
    case (Some gm)
    with g obtain gm' where s': "ga' = Some gm'"
      and ag: "\<forall>h \<in> set (player # cpu11). dict_get gm' (id_h h) 1 = dict_get gm (id_h h) 1"
      by (cases ga') (simp_all add: same_gates_def list_all_iff)
    show ?thesis
      unfolding run_race_sim_def Let_def Some s' option.case sum.case b
      using ag by (rule race_body_cong [OF d s])
  qed
qed

text \<open>
  Two invocations that differ in the purse and in how the gate map is written, with
  both runners in gate 1 either way.
\<close>

theorem run_race_sim_deterministic_witness:
  "course_code (race0\<lparr>winner_purse := 1\<rparr>) = course_code race0 \<and>
   distance (race0\<lparr>winner_purse := 1\<rparr>) = distance race0 \<and>
   surface (race0\<lparr>winner_purse := 1\<rparr>) = surface race0 \<and>
   same_gates [mk_horse ''PLAYER-001'', mk_horse ''CPU-R01-00'']
     (Some no_gates) (Some [''PLAYER-001'' \<mapsto> 1, ''CPU-R01-00'' \<mapsto> 1]) \<and>
   outcome (run_race_sim env0 42 1 (race0\<lparr>winner_purse := 1\<rparr>) GOOD (mk_horse ''PLAYER-001'')
              [mk_horse ''CPU-R01-00''] (Some no_gates))
     = outcome (run_race_sim env0 42 1 race0 GOOD (mk_horse ''PLAYER-001'')
              [mk_horse ''CPU-R01-00''] (Some [''PLAYER-001'' \<mapsto> 1, ''CPU-R01-00'' \<mapsto> 1]))"
proof -
  have sg: "same_gates [mk_horse ''PLAYER-001'', mk_horse ''CPU-R01-00'']
     (Some no_gates) (Some [''PLAYER-001'' \<mapsto> 1, ''CPU-R01-00'' \<mapsto> 1])"
    by (simp add: same_gates_def no_gates_def dict_get_def mk_horse_def)
  have a: "course_code (race0\<lparr>winner_purse := 1\<rparr>) = course_code race0"
    and b: "distance (race0\<lparr>winner_purse := 1\<rparr>) = distance race0"
    and c: "surface (race0\<lparr>winner_purse := 1\<rparr>) = surface race0" by simp_all
  from run_race_sim_deterministic [OF a b c sg, of env0 42 1 GOOD] sg a b c
  show ?thesis by blast
qed

text \<open>
  Claim C7, as the code has it. \<^verbatim>\<open>run_race_sim\<close> validates nothing and raises
  nothing: for every gate map, a permutation of the field or not, it returns a result
  with a score for every runner and a finish order that is a permutation of the
  runners. A runner without an entry in the gate map is run from gate 1
  (\<^verbatim>\<open>gate_by_id.get(h.id, 1)\<close>): the scores and the finish order are those of the
  gate map completed with gate 1. The field is never empty, the player being its
  first runner.
\<close>

theorem run_race_sim_no_validation:
  "\<exists>r. run_race_sim E seed meet_iter race_meta condition player cpu11 (Some g) = Inr r \<and>
       dom (scores_r r) = id_h ` set (player # cpu11) \<and>
       mset (finish_order_r r) = mset (player # cpu11) \<and>
       gates_r r = g \<and>
       outcome (Inr r) = outcome (run_race_sim E seed meet_iter race_meta condition player cpu11
                                   (Some (\<lambda>i. Some (dict_get g i 1))))"
proof -
  define base where "base = race_base E seed meet_iter race_meta condition"
  have run: "run_race_sim E seed meet_iter race_meta condition player cpu11 (Some g')
           = race_body E base race_meta condition (player # cpu11) g'" for g'
    by (simp add: run_race_sim_def base_def)
  from race_body_returns [of E base race_meta condition "player # cpu11" g]
  obtain r where r: "race_body E base race_meta condition (player # cpu11) g = Inr r"
    and p: "dom (scores_r r) = id_h ` set (player # cpu11)"
       "mset (finish_order_r r) = mset (player # cpu11)" "gates_r r = g" by blast
  have "outcome (race_body E base race_meta condition (player # cpu11) g)
      = outcome (race_body E base race_meta condition (player # cpu11) (\<lambda>i. Some (dict_get g i 1)))"
    by (rule race_body_cong) (simp_all add: dict_get_def)
  with r p show ?thesis unfolding run by simp
qed

text \<open>
  Claim C7 as stated fails: with a gate map that has no entry for either of the two
  runners, the simulator does not raise.
\<close>

theorem run_race_sim_no_validation_counterexample:
  "\<not> isl (run_race_sim env0 42 1 race0 GOOD (mk_horse ''PLAYER-001'') [mk_horse ''CPU-R01-00'']
            (Some no_gates)) \<and>
   no_gates ''PLAYER-001'' = None \<and> no_gates ''CPU-R01-00'' = None"
proof -
  from run_race_sim_returns [of env0 42 1 race0 GOOD "mk_horse ''PLAYER-001''"
      "[mk_horse ''CPU-R01-00'']" "Some no_gates"]
  show ?thesis by (auto simp: no_gates_def)
qed

end
